theory Spec2Isabelle
  imports
    Complex_Main
    "HOL-Library.Char_ord"
    "HOL-Library.List_Lexorder"
    "HOL-Library.AList"
    "HOL-Library.Word"
begin

text \<open>
  A shallow embedding of the caching core of \<^verbatim>\<open>file_builder\<close>: the JSON utilities
  (\<^verbatim>\<open>json_util.py\<close>), the operation records (\<^verbatim>\<open>operation.py\<close>), the cache
  (\<^verbatim>\<open>cache.py\<close>), the directory registry (\<^verbatim>\<open>build_dirs.py\<close>), the file backups
  (\<^verbatim>\<open>file_backups.py\<close>), the \<^verbatim>\<open>is_file\<close> operation of
  \<^verbatim>\<open>simple_operation_executor.py\<close> and \<^verbatim>\<open>FileBuilder.clean\<close>.

  Conventions. Every Python function becomes a HOL function of the same name. Mutable
  objects are passed in and returned. An exception is a value of type \<open>error\<close>.
  Paths follow \<^verbatim>\<open>posixpath\<close>; \<^verbatim>\<open>os.path.normcase\<close> is a parameter \<open>nc\<close> of the
  functions that call it, so results hold for every platform normalisation.
\<close>

section \<open>The embedding: data model and operations\<close>

subsection \<open>Errors\<close>

text \<open>
  The exceptions of the modelled code. The source raises \<^verbatim>\<open>RuntimeError\<close> for several
  conditions, told apart by their messages; they are named as the specification names
  them: \<open>DuplicateBuild\<close> (``Building the same file twice is not allowed''),
  \<open>DuplicateSubbuild\<close> (``Calling the same subbuild function twice ...''),
  \<open>CacheFormat\<close> (``Error parsing cache file'', ``Error reading or parsing cache file'')
  and \<open>BuildNameMismatch\<close> (``The cache file was created for the build named ...'').
  \<open>TypeMismatch\<close> marks a cache file with a value of an unexpected JSON type in a typed
  field: the source does not check it and would build a record that the typed model
  does not contain.
\<close>

datatype error =
    DuplicateBuild | DuplicateSubbuild | CacheFormat | BuildNameMismatch
  | KeyError | TypeError | AttributeError | FileNotFoundError | IsADirectoryError
  | NotADirectoryError | OSError
  | TypeMismatch

datatype 'a outcome = Returns 'a | Raises error


subsection \<open>JSON values (\<^verbatim>\<open>json_util.py\<close>)\<close>

text \<open>
  Python values that \<^verbatim>\<open>JsonUtil\<close> accepts. A \<^verbatim>\<open>float\<close> is its mathematical value, or
  one of the three special values; only comparisons of floats occur in the code, so no
  rounding is modelled. A \<^verbatim>\<open>dict\<close> with \<^verbatim>\<open>str\<close> keys is the list of its items. No
  modelled function depends on the order of the items for its result, and the theorems
  take the items in ascending key order (\<open>wf_json\<close>), which gives every Python dict
  exactly one representative.
\<close>

datatype pyfloat = Finite rat | PosInf | NegInf | NaN

datatype json =
    JNone
  | JBool bool
  | JInt int
  | JFloat pyfloat
  | JStr string
  | JList "json list"
  | JTuple "json list"
  | JDict "(string \<times> json) list"

text \<open>
  Python's \<^verbatim>\<open>==\<close> on these values. \<^verbatim>\<open>bool\<close> is a subclass of \<^verbatim>\<open>int\<close>, numbers
  compare by value across \<^verbatim>\<open>bool\<close>, \<^verbatim>\<open>int\<close> and \<^verbatim>\<open>float\<close>, and NaN equals
  nothing. Sequences compare element by element; CPython first tests the elements for
  object identity, which a value model cannot see, so statements about \<^verbatim>\<open>==\<close> on
  containers are made for NaN-free values, where identity implies equality.
\<close>

fun num_of :: "json \<Rightarrow> pyfloat option" where
  "num_of (JBool b) = Some (Finite (if b then 1 else 0))"
| "num_of (JInt n) = Some (Finite (of_int n))"
| "num_of (JFloat f) = Some f"
| "num_of _ = None"

definition num_eq :: "pyfloat \<Rightarrow> pyfloat \<Rightarrow> bool" where
  "num_eq a b \<longleftrightarrow> a \<noteq> NaN \<and> a = b"

definition py_eq_num :: "json \<Rightarrow> json \<Rightarrow> bool" where
  "py_eq_num v w =
     (case num_of v of None \<Rightarrow> False
      | Some a \<Rightarrow> (case num_of w of None \<Rightarrow> False | Some b \<Rightarrow> num_eq a b))"

fun py_eq :: "json \<Rightarrow> json \<Rightarrow> bool"
  and py_eq_seq :: "json list \<Rightarrow> json list \<Rightarrow> bool"
  and py_eq_items :: "(string \<times> json) list \<Rightarrow> (string \<times> json) list \<Rightarrow> bool" where
  "py_eq JNone w = (w = JNone)"
| "py_eq (JBool b) w = py_eq_num (JBool b) w"
| "py_eq (JInt n) w = py_eq_num (JInt n) w"
| "py_eq (JFloat f) w = py_eq_num (JFloat f) w"
| "py_eq (JStr s) w = (w = JStr s)"
| "py_eq (JList xs) w = (case w of JList ys \<Rightarrow> py_eq_seq xs ys | _ \<Rightarrow> False)"
| "py_eq (JTuple xs) w = (case w of JTuple ys \<Rightarrow> py_eq_seq xs ys | _ \<Rightarrow> False)"
| "py_eq (JDict kvs) w =
     (case w of JDict kws \<Rightarrow> length kvs = length kws \<and> py_eq_items kvs kws | _ \<Rightarrow> False)"
| "py_eq_seq [] ys = (ys = [])"
| "py_eq_seq (x # xs) ys = (case ys of [] \<Rightarrow> False | y # ys' \<Rightarrow> py_eq x y \<and> py_eq_seq xs ys')"
| "py_eq_items [] kws = True"
| "py_eq_items ((k, v) # kvs) kws =
     (case map_of kws k of None \<Rightarrow> False | Some w \<Rightarrow> py_eq v w \<and> py_eq_items kvs kws)"

text \<open>\<^verbatim>\<open>JsonUtil.is_equal\<close>. The last branch of the source is \<open>is_equal_scalar\<close>.\<close>

datatype pyclass = NoneType | BoolC | IntC | FloatC | StrC | ListC | TupleC | DictC

fun class_of :: "json \<Rightarrow> pyclass" where
  "class_of JNone = NoneType"
| "class_of (JBool _) = BoolC"
| "class_of (JInt _) = IntC"
| "class_of (JFloat _) = FloatC"
| "class_of (JStr _) = StrC"
| "class_of (JList _) = ListC"
| "class_of (JTuple _) = TupleC"
| "class_of (JDict _) = DictC"

definition is_equal_scalar :: "json \<Rightarrow> json \<Rightarrow> bool" where
  "is_equal_scalar v w =
     (if (class_of v = BoolC) \<noteq> (class_of w = BoolC) then False else py_eq v w)"

fun is_equal :: "json \<Rightarrow> json \<Rightarrow> bool"
  and is_equal_zip :: "json list \<Rightarrow> json list \<Rightarrow> bool"
  and is_equal_items :: "(string \<times> json) list \<Rightarrow> (string \<times> json) list \<Rightarrow> bool" where
  "is_equal (JList xs) w =
     (case w of
        JList ys \<Rightarrow> if length xs \<noteq> length ys then False else is_equal_zip xs ys
      | JTuple ys \<Rightarrow> if length xs \<noteq> length ys then False else is_equal_zip xs ys
      | _ \<Rightarrow> False)"
| "is_equal (JTuple xs) w =
     (case w of
        JList ys \<Rightarrow> if length xs \<noteq> length ys then False else is_equal_zip xs ys
      | JTuple ys \<Rightarrow> if length xs \<noteq> length ys then False else is_equal_zip xs ys
      | _ \<Rightarrow> False)"
| "is_equal (JDict kvs) w =
     (case w of
        JDict kws \<Rightarrow> if length kvs \<noteq> length kws then False else is_equal_items kvs kws
      | _ \<Rightarrow> False)"
| "is_equal JNone w = is_equal_scalar JNone w"
| "is_equal (JBool b) w = is_equal_scalar (JBool b) w"
| "is_equal (JInt n) w = is_equal_scalar (JInt n) w"
| "is_equal (JFloat f) w = is_equal_scalar (JFloat f) w"
| "is_equal (JStr s) w = is_equal_scalar (JStr s) w"
| "is_equal_zip (x # xs) (y # ys) = (if \<not> is_equal x y then False else is_equal_zip xs ys)"
| "is_equal_zip _ _ = True"
| "is_equal_items [] kws = True"
| "is_equal_items ((key, subvalue) # kvs) kws =
     (case map_of kws key of
        None \<Rightarrow> False
      | Some w \<Rightarrow> if \<not> is_equal subvalue w then False else is_equal_items kvs kws)"

text \<open>
  \<^verbatim>\<open>JsonUtil.to_hashable\<close>. The loop over \<^verbatim>\<open>sorted(value.keys())\<close> is \<open>dict_tuple\<close>; the
  key it looks up always exists, so its \<open>None\<close> branch is never taken.
\<close>

definition dict_tuple :: "string list \<Rightarrow> (string \<times> json) list \<Rightarrow> json list" where
  "dict_tuple keys hs =
     concat (map (\<lambda>key. case map_of hs key of Some h \<Rightarrow> [JStr key, h] | None \<Rightarrow> []) keys)"

fun to_hashable :: "json \<Rightarrow> json"
  and to_hashable_list :: "json list \<Rightarrow> json list"
  and to_hashable_items :: "(string \<times> json) list \<Rightarrow> (string \<times> json) list" where
  "to_hashable (JList xs) = JTuple (JInt 0 # to_hashable_list xs)"
| "to_hashable (JDict kvs) = JTuple (dict_tuple (sort (map fst kvs)) (to_hashable_items kvs))"
| "to_hashable (JBool b) = (if b then JTuple [JInt 1] else JTuple [JInt 2])"
| "to_hashable JNone = JNone"
| "to_hashable (JInt n) = JInt n"
| "to_hashable (JFloat f) = JFloat f"
| "to_hashable (JStr s) = JStr s"
| "to_hashable (JTuple xs) = JTuple xs"
| "to_hashable_list [] = []"
| "to_hashable_list (x # xs) = to_hashable x # to_hashable_list xs"
| "to_hashable_items [] = []"
| "to_hashable_items ((k, v) # kvs) = (k, to_hashable v) # to_hashable_items kvs"

text \<open>
  \<^verbatim>\<open>JsonUtil.sanitize\<close>. The keys of the model are strings, which \<^verbatim>\<open>_key_to_str\<close>
  returns unchanged, and every value of type \<open>json\<close> is a JSON value, so the
  \<^verbatim>\<open>TypeError\<close> branch has no input.
\<close>

fun sanitize :: "json \<Rightarrow> json"
  and sanitize_list :: "json list \<Rightarrow> json list"
  and sanitize_items :: "(string \<times> json) list \<Rightarrow> (string \<times> json) list" where
  "sanitize JNone = JNone"
| "sanitize (JBool b) = JBool b"
| "sanitize (JInt n) = JInt n"
| "sanitize (JFloat f) = JFloat f"
| "sanitize (JStr s) = JStr s"
| "sanitize (JList xs) = JList (sanitize_list xs)"
| "sanitize (JTuple xs) = JList (sanitize_list xs)"
| "sanitize (JDict kvs) = JDict (sanitize_items kvs)"
| "sanitize_list [] = []"
| "sanitize_list (x # xs) = sanitize x # sanitize_list xs"
| "sanitize_items [] = []"
| "sanitize_items ((key, subvalue) # kvs) = (key, sanitize subvalue) # sanitize_items kvs"

text \<open>Representation invariant of dicts, absence of NaN, and sanitized values.\<close>

fun wf_json :: "json \<Rightarrow> bool"
  and wf_json_list :: "json list \<Rightarrow> bool"
  and wf_json_items :: "(string \<times> json) list \<Rightarrow> bool" where
  "wf_json (JList xs) = wf_json_list xs"
| "wf_json (JTuple xs) = wf_json_list xs"
| "wf_json (JDict kvs) = (sorted_wrt (<) (map fst kvs) \<and> wf_json_items kvs)"
| "wf_json JNone = True"
| "wf_json (JBool b) = True"
| "wf_json (JInt n) = True"
| "wf_json (JFloat f) = True"
| "wf_json (JStr s) = True"
| "wf_json_list [] = True"
| "wf_json_list (x # xs) = (wf_json x \<and> wf_json_list xs)"
| "wf_json_items [] = True"
| "wf_json_items ((k, v) # kvs) = (wf_json v \<and> wf_json_items kvs)"

fun nan_free :: "json \<Rightarrow> bool"
  and nan_free_list :: "json list \<Rightarrow> bool"
  and nan_free_items :: "(string \<times> json) list \<Rightarrow> bool" where
  "nan_free (JFloat f) = (f \<noteq> NaN)"
| "nan_free (JList xs) = nan_free_list xs"
| "nan_free (JTuple xs) = nan_free_list xs"
| "nan_free (JDict kvs) = nan_free_items kvs"
| "nan_free JNone = True"
| "nan_free (JBool b) = True"
| "nan_free (JInt n) = True"
| "nan_free (JStr s) = True"
| "nan_free_list [] = True"
| "nan_free_list (x # xs) = (nan_free x \<and> nan_free_list xs)"
| "nan_free_items [] = True"
| "nan_free_items ((k, v) # kvs) = (nan_free v \<and> nan_free_items kvs)"


fun no_tuples :: "json \<Rightarrow> bool"
  and no_tuples_list :: "json list \<Rightarrow> bool"
  and no_tuples_items :: "(string \<times> json) list \<Rightarrow> bool" where
  "no_tuples (JTuple xs) = False"
| "no_tuples (JList xs) = no_tuples_list xs"
| "no_tuples (JDict kvs) = no_tuples_items kvs"
| "no_tuples JNone = True"
| "no_tuples (JBool b) = True"
| "no_tuples (JInt n) = True"
| "no_tuples (JFloat f) = True"
| "no_tuples (JStr s) = True"
| "no_tuples_list [] = True"
| "no_tuples_list (x # xs) = (no_tuples x \<and> no_tuples_list xs)"
| "no_tuples_items [] = True"
| "no_tuples_items ((k, v) # kvs) = (no_tuples v \<and> no_tuples_items kvs)"

definition sanitized :: "json \<Rightarrow> bool" where
  "sanitized v \<longleftrightarrow> wf_json v \<and> no_tuples v"

subsection \<open>Paths and the file system\<close>

text \<open>
  \<^verbatim>\<open>posixpath.dirname\<close>: the part of the path up to and including the last slash, without
  its trailing slashes unless it consists of slashes only. \<^verbatim>\<open>posixpath.join\<close> for two
  components.
\<close>

definition dirname :: "string \<Rightarrow> string" where
  "dirname p =
     (let head = rev (dropWhile (\<lambda>c. c \<noteq> CHR ''/'') (rev p)) in
      if head \<noteq> [] \<and> \<not> (\<forall>c \<in> set head. c = CHR ''/'')
      then rev (dropWhile (\<lambda>c. c = CHR ''/'') (rev head))
      else head)"

definition join :: "string \<Rightarrow> string \<Rightarrow> string" where
  "join a b =
     (if b \<noteq> [] \<and> hd b = CHR ''/'' then b
      else if a = [] \<or> last a = CHR ''/'' then a @ b
      else a @ ''/'' @ b)"

definition basename :: "string \<Rightarrow> string" where
  "basename p = rev (takeWhile (\<lambda>c. c \<noteq> CHR ''/'') (rev p))"

text \<open>A path either is its own \<open>dirname\<close> or is longer than it: the loops that climb to the root end.\<close>

lemma dirname_shorter: "dirname p \<noteq> p \<Longrightarrow> length (dirname p) < length p"
proof -
  have pre: "\<exists>s. xs = rev (dropWhile P (rev xs)) @ s" for P and xs :: string
  proof -
    have "rev xs = takeWhile P (rev xs) @ dropWhile P (rev xs)" by simp
    then have "xs = rev (takeWhile P (rev xs) @ dropWhile P (rev xs))"
      by (metis rev_rev_ident)
    then show ?thesis by (metis rev_append)
  qed
  define h where "h = rev (dropWhile (\<lambda>c. c \<noteq> CHR ''/'') (rev p))"
  define g where "g = rev (dropWhile (\<lambda>c. c = CHR ''/'') (rev h))"
  obtain s where s: "p = h @ s" unfolding h_def using pre by blast
  obtain t where t: "h = g @ t" unfolding g_def using pre by blast
  have "dirname p = g \<or> dirname p = h"
    by (simp add: dirname_def Let_def g_def h_def)
  then obtain u where u: "p = dirname p @ u"
    using s t by (metis append.assoc)
  assume "dirname p \<noteq> p"
  with u have "u \<noteq> []" by auto
  then have "length (dirname p) < length (dirname p @ u)" by simp
  with u show ?thesis by simp
qed

text \<open>
  The real file system, as far as the code observes it: a finite table from paths to
  nodes, a directory or a regular file. The content of a regular file is \<open>Some j\<close> when
  the file is a gzip stream of the JSON text of \<open>j\<close>, and \<open>None\<close> for any other content.
  Links, devices and permissions are not modelled: removing or renaming an existing
  file succeeds.
\<close>

datatype node = RegularFile "json option" | Directory

type_synonym filesystem = "(string \<times> node) list"

definition isfile :: "filesystem \<Rightarrow> string \<Rightarrow> bool" where
  "isfile fs p = (case map_of fs p of Some (RegularFile content) \<Rightarrow> True | _ \<Rightarrow> False)"

definition isdir :: "filesystem \<Rightarrow> string \<Rightarrow> bool" where
  "isdir fs p = (map_of fs p = Some Directory)"


text \<open>
  \<^verbatim>\<open>os.listdir\<close>, with the two errors that the code handles. The entries of a directory
  are the last components of the paths whose \<open>dirname\<close> it is.
\<close>

definition listdir :: "filesystem \<Rightarrow> string \<Rightarrow> error + string list" where
  "listdir fs d =
     (case map_of fs d of
        None \<Rightarrow> Inl FileNotFoundError
      | Some (RegularFile content) \<Rightarrow> Inl NotADirectoryError
      | Some Directory \<Rightarrow>
          Inr (remdups (map (basename \<circ> fst) (filter (\<lambda>(p, n). p \<noteq> d \<and> dirname p = d) fs))))"

subsection \<open>Operation records (\<^verbatim>\<open>operation.py\<close>, \<^verbatim>\<open>file_comparison.py\<close>)\<close>

datatype file_comparison = METADATA | HASH

fun file_comparison_name :: "file_comparison \<Rightarrow> string" where
  "file_comparison_name METADATA = ''METADATA''"
| "file_comparison_name HASH = ''HASH''"

text \<open>\<^verbatim>\<open>FileComparison[name]\<close>; \<open>None\<close> stands for the \<^verbatim>\<open>KeyError\<close> of the enum.\<close>

definition file_comparison_lookup :: "string \<Rightarrow> file_comparison option" where
  "file_comparison_lookup s =
     (if s = ''METADATA'' then Some METADATA else if s = ''HASH'' then Some HASH else None)"

text \<open>
  The three concrete classes, with the constructor arguments in the order of the source:
  \<^verbatim>\<open>SimpleOperation(name, args, return_value, exception_type_str, is_finished)\<close>,
  \<^verbatim>\<open>BuildFileOperation(filename, file_comparison, func_name, args, kwargs, suboperations,
  return_value, file_comparison_result, raised, setup_failed, is_finished)\<close> and
  \<^verbatim>\<open>SubbuildOperation(func_name, args, kwargs, suboperations, return_value, raised,
  setup_failed, is_finished)\<close>.
\<close>

datatype operation =
    SimpleOperation string json json "string option" bool
  | BuildFileOperation string file_comparison string json json "operation list" json json
      bool bool bool
  | SubbuildOperation string json json "operation list" json bool bool bool

fun is_complex :: "operation \<Rightarrow> bool" where
  "is_complex (SimpleOperation name a rv ex fin) = False"
| "is_complex _ = True"

fun suboperations :: "operation \<Rightarrow> operation list" where
  "suboperations (BuildFileOperation filename fc fname a kw subs rv fcr r sf fin) = subs"
| "suboperations (SubbuildOperation fname a kw subs rv r sf fin) = subs"
| "suboperations (SimpleOperation name a rv ex fin) = []"

fun setup_failed :: "operation \<Rightarrow> bool" where
  "setup_failed (BuildFileOperation filename fc fname a kw subs rv fcr r sf fin) = sf"
| "setup_failed (SubbuildOperation fname a kw subs rv r sf fin) = sf"
| "setup_failed (SimpleOperation name a rv ex fin) = False"

fun raised :: "operation \<Rightarrow> bool" where
  "raised (BuildFileOperation filename fc fname a kw subs rv fcr r sf fin) = r"
| "raised (SubbuildOperation fname a kw subs rv r sf fin) = r"
| "raised (SimpleOperation name a rv ex fin) = False"

subsection \<open>The cache (\<^verbatim>\<open>cache.py\<close>)\<close>

text \<open>
  A Python dict keeps its items in insertion order; \<^verbatim>\<open>d[k] = v\<close> replaces the value of
  an existing key in place and appends a new key. For string keys this is
  \<open>AList.update\<close> with lookup \<open>map_of\<close>. The dict of subbuilds has tuples as keys, which
  Python compares with \<^verbatim>\<open>==\<close>.
\<close>

fun py_dict_has :: "(json \<times> 'v) list \<Rightarrow> json \<Rightarrow> bool" where
  "py_dict_has [] k = False"
| "py_dict_has ((k0, v0) # d) k = (py_eq k0 k \<or> py_dict_has d k)"


fun py_dict_set :: "json \<Rightarrow> 'v \<Rightarrow> (json \<times> 'v) list \<Rightarrow> (json \<times> 'v) list" where
  "py_dict_set k v [] = [(k, v)]"
| "py_dict_set k v ((k0, v0) # d) =
     (if py_eq k0 k then (k0, v) # d else (k0, v0) # py_dict_set k v d)"

text \<open>
  The attributes of \<^verbatim>\<open>Cache\<close>. An entry \<open>None\<close> is the sentinel of a build in
  progress. The locks have no counterpart: every method is one atomic step.
\<close>

record cache =
  cache_build_name :: string
  files :: "(string \<times> operation option) list"
  norm_cased_files :: "(string \<times> operation option) list"
  subbuilds :: "(json \<times> operation option) list"
  cache_created_dirs :: "string set"
  func_versions :: json
  operation_versions :: json
  is_mutable :: bool

text \<open>\<^verbatim>\<open>Cache.__init__\<close>.\<close>

definition Cache ::
  "(string \<Rightarrow> string) \<Rightarrow> string \<Rightarrow> (string \<times> operation option) list \<Rightarrow>
   (json \<times> operation option) list \<Rightarrow> string set \<Rightarrow> json \<Rightarrow> json \<Rightarrow> bool \<Rightarrow> cache" where
  "Cache nc bn fs sbs dirs fv ov mutable =
     \<lparr> cache_build_name = bn, files = fs,
       norm_cased_files =
         foldl (\<lambda>d (filename, operation). AList.update (nc filename) operation d) [] fs,
       subbuilds = sbs, cache_created_dirs = dirs, func_versions = fv,
       operation_versions = ov, is_mutable = mutable \<rparr>"

text \<open>\<^verbatim>\<open>_OPERATION_VERSIONS\<close> is the empty dict.\<close>

definition create_empty :: "(string \<Rightarrow> string) \<Rightarrow> string \<Rightarrow> json \<Rightarrow> bool \<Rightarrow> cache" where
  "create_empty nc bn fv mutable = Cache nc bn [] [] {} fv (JDict []) mutable"

definition create_empty_mutable :: "(string \<Rightarrow> string) \<Rightarrow> string \<Rightarrow> json \<Rightarrow> cache" where
  "create_empty_mutable nc bn fv = create_empty nc bn fv True"

definition create_empty_immutable :: "(string \<Rightarrow> string) \<Rightarrow> string \<Rightarrow> json \<Rightarrow> cache" where
  "create_empty_immutable nc bn fv = create_empty nc bn fv False"

fun subbuild_key :: "operation \<Rightarrow> json" where
  "subbuild_key (SubbuildOperation fname a kw subs rv r sf fin) =
     to_hashable (JList [JStr fname, a, kw])"
| "subbuild_key (BuildFileOperation filename fc fname a kw subs rv fcr r sf fin) =
     to_hashable (JList [JStr fname, a, kw])"
| "subbuild_key (SimpleOperation name a rv ex fin) = JNone"


text \<open>\<^verbatim>\<open>dict.get\<close>: an absent key and the sentinel both give \<open>None\<close>.\<close>

definition get_file :: "cache \<Rightarrow> string \<Rightarrow> operation option" where
  "get_file c filename = (case map_of (files c) filename of None \<Rightarrow> None | Some e \<Rightarrow> e)"

definition get_norm_cased_file :: "cache \<Rightarrow> string \<Rightarrow> operation option" where
  "get_norm_cased_file c norm_cased_filename =
     (case map_of (norm_cased_files c) norm_cased_filename of None \<Rightarrow> None | Some e \<Rightarrow> e)"

definition has_norm_cased_file :: "cache \<Rightarrow> string \<Rightarrow> bool" where
  "has_norm_cased_file c norm_cased_filename
     \<longleftrightarrow> map_of (norm_cased_files c) norm_cased_filename \<noteq> None"

definition assert_doesnt_have_norm_cased_file :: "cache \<Rightarrow> string \<Rightarrow> string \<Rightarrow> error option" where
  "assert_doesnt_have_norm_cased_file c norm_cased_filename filename =
     (if map_of (norm_cased_files c) norm_cased_filename \<noteq> None then Some DuplicateBuild
      else None)"

definition start_building_file ::
  "(string \<Rightarrow> string) \<Rightarrow> cache \<Rightarrow> string \<Rightarrow> unit outcome \<times> cache" where
  "start_building_file nc c filename =
     (let norm_cased_filename = nc filename in
      case assert_doesnt_have_norm_cased_file c norm_cased_filename filename of
        Some e \<Rightarrow> (Raises e, c)
      | None \<Rightarrow>
          (Returns (),
           c\<lparr> files := AList.update filename None (files c),
              norm_cased_files :=
                AList.update norm_cased_filename None (norm_cased_files c) \<rparr>))"

fun finish_building_file :: "(string \<Rightarrow> string) \<Rightarrow> cache \<Rightarrow> operation \<Rightarrow> cache" where
  "finish_building_file nc c (BuildFileOperation filename fc fname a kw subs rv fcr r sf fin) =
     (let operation = BuildFileOperation filename fc fname a kw subs rv fcr r sf fin in
      c\<lparr> files := AList.update filename (Some operation) (files c),
         norm_cased_files :=
           AList.update (nc filename) (Some operation) (norm_cased_files c) \<rparr>)"
| "finish_building_file nc c operation = c"

definition created_file :: "cache \<Rightarrow> string \<Rightarrow> bool" where
  "created_file c filename =
     (case get_file c filename of None \<Rightarrow> False | Some operation \<Rightarrow> \<not> raised operation)"

definition created_norm_cased_file :: "cache \<Rightarrow> string \<Rightarrow> bool" where
  "created_norm_cased_file c norm_cased_filename =
     (case get_norm_cased_file c norm_cased_filename of
        None \<Rightarrow> False
      | Some operation \<Rightarrow> \<not> raised operation)"





definition assert_doesnt_have_subbuild :: "cache \<Rightarrow> json \<Rightarrow> operation \<Rightarrow> error option" where
  "assert_doesnt_have_subbuild c key operation =
     (if py_dict_has (subbuilds c) key then Some DuplicateSubbuild else None)"

definition start_subbuild :: "cache \<Rightarrow> json \<Rightarrow> operation \<Rightarrow> unit outcome \<times> cache" where
  "start_subbuild c key operation =
     (case assert_doesnt_have_subbuild c key operation of
        Some e \<Rightarrow> (Raises e, c)
      | None \<Rightarrow> (Returns (), c\<lparr> subbuilds := py_dict_set key None (subbuilds c) \<rparr>))"

definition finish_subbuild :: "cache \<Rightarrow> json \<Rightarrow> operation \<Rightarrow> cache" where
  "finish_subbuild c key operation =
     c\<lparr> subbuilds := py_dict_set key (Some operation) (subbuilds c) \<rparr>"

definition add_created_dirs :: "cache \<Rightarrow> string list \<Rightarrow> cache" where
  "add_created_dirs c dirs = c\<lparr> cache_created_dirs := cache_created_dirs c \<union> set dirs \<rparr>"




text \<open>
  Vocabulary for the statements about the cache. \<open>cache_inv\<close>: the keys of
  \<^verbatim>\<open>_norm_cased_files\<close> are the normalised keys of \<^verbatim>\<open>_files\<close>, as the constructor
  sets them up. \<open>tree_records\<close>: an operation and its descendants that are build-file or
  subbuild records with \<^verbatim>\<open>setup_failed\<close> false, in the order of the traversal.
  \<open>collides\<close>: the record's key is already in the cache. \<open>planted\<close>: the cache holds,
  under the record's key, a finished record of the tree, of the same kind and, for a
  file, of the same (normalised) filename.
\<close>

definition cache_inv :: "(string \<Rightarrow> string) \<Rightarrow> cache \<Rightarrow> bool" where
  "cache_inv nc c \<longleftrightarrow> fst ` set (norm_cased_files c) = nc ` fst ` set (files c)"

fun tree_records :: "operation \<Rightarrow> operation list"
  and tree_records_list :: "operation list \<Rightarrow> operation list" where
  "tree_records (BuildFileOperation filename fc fname a kw subs rv fcr r sf fin) =
     (if sf then [] else [BuildFileOperation filename fc fname a kw subs rv fcr r sf fin])
     @ tree_records_list subs"
| "tree_records (SubbuildOperation fname a kw subs rv r sf fin) =
     (if sf then [] else [SubbuildOperation fname a kw subs rv r sf fin])
     @ tree_records_list subs"
| "tree_records (SimpleOperation name a rv ex fin) = []"
| "tree_records_list [] = []"
| "tree_records_list (suboperation # rest) =
     tree_records suboperation @ tree_records_list rest"


fun file_key :: "operation \<Rightarrow> string option" where
  "file_key (BuildFileOperation filename fc fname a kw subs rv fcr r sf fin) = Some filename"
| "file_key _ = None"

fun is_subbuild :: "operation \<Rightarrow> bool" where
  "is_subbuild (SubbuildOperation fname a kw subs rv r sf fin) = True"
| "is_subbuild _ = False"




subsection \<open>Writing and reading the cache file\<close>

text \<open>
  \<^verbatim>\<open>_operation_to_json\<close>. Each dict is given by its items in ascending key order; the
  optional keys \<^verbatim>\<open>exceptionType\<close>, \<^verbatim>\<open>raised\<close> and \<^verbatim>\<open>setupFailed\<close> are present
  under the conditions of the source.
\<close>

fun operation_to_json :: "operation \<Rightarrow> json"
  and operations_to_json :: "operation list \<Rightarrow> json list" where
  "operation_to_json (SimpleOperation name a rv ex fin) =
     JDict ([(''args'', a)]
            @ (case ex of None \<Rightarrow> [] | Some s \<Rightarrow> [(''exceptionType'', JStr s)])
            @ [(''returnValue'', rv), (''type'', JStr name)])"
| "operation_to_json (BuildFileOperation filename fc fname a kw subs rv fcr r sf fin) =
     JDict ([(''args'', a),
             (''fileComparison'', JStr (file_comparison_name fc)),
             (''fileComparisonResult'', fcr),
             (''filename'', JStr filename),
             (''funcName'', JStr fname),
             (''kwargs'', kw)]
            @ (if r then [(''raised'', JBool True)] else [])
            @ [(''returnValue'', rv)]
            @ (if sf then [(''setupFailed'', JBool True)] else [])
            @ [(''suboperations'', JList (operations_to_json subs)),
               (''type'', JStr ''build_file'')])"
| "operation_to_json (SubbuildOperation fname a kw subs rv r sf fin) =
     JDict ([(''args'', a),
             (''funcName'', JStr fname),
             (''kwargs'', kw)]
            @ (if r then [(''raised'', JBool True)] else [])
            @ [(''returnValue'', rv)]
            @ (if sf then [(''setupFailed'', JBool True)] else [])
            @ [(''suboperations'', JList (operations_to_json subs)),
               (''type'', JStr ''subbuild'')])"
| "operations_to_json [] = []"
| "operations_to_json (suboperation # rest) =
     operation_to_json suboperation # operations_to_json rest"

text \<open>
  \<^verbatim>\<open>Cache.write\<close> (\<open>write_cache\<close>; \<open>write\<close> is a keyword). A sentinel among the entries has no attribute
  \<^verbatim>\<open>suboperations\<close>. The source tests membership in \<^verbatim>\<open>non_root_operations\<close> by
  object identity; the records of a cache are values here. \<^verbatim>\<open>list(self._created_dirs)\<close>
  lists the set in some order: here in ascending order. The file receives
  \<^verbatim>\<open>json.dumps(cache_json, sort_keys=True)\<close>; reading it back gives
  \<^verbatim>\<open>json.loads(json.dumps(cache_json))\<close>, which is \<open>sanitize cache_json\<close> by the
  contract of \<^verbatim>\<open>JsonUtil.sanitize\<close>.
\<close>

definition cache_operations :: "cache \<Rightarrow> operation option list" where
  "cache_operations c = map snd (files c) @ map snd (subbuilds c)"

definition non_root_operations :: "operation list \<Rightarrow> operation set" where
  "non_root_operations operations = (\<Union>operation \<in> set operations. set (suboperations operation))"

definition root_operations :: "operation list \<Rightarrow> operation list" where
  "root_operations operations =
     filter (\<lambda>operation. operation \<notin> non_root_operations operations) operations"

definition cache_json :: "cache \<Rightarrow> json outcome" where
  "cache_json c =
     (if None \<in> set (cache_operations c) then Raises AttributeError
      else Returns (JDict
        [(''buildName'', JStr (cache_build_name c)),
         (''cacheFileVersion'', JNone),
         (''createdDirs'', JList (map JStr (sorted_list_of_set (cache_created_dirs c)))),
         (''funcVersions'', func_versions c),
         (''operationVersions'', operation_versions c),
         (''rootOperations'',
            JList (operations_to_json (root_operations (map the (cache_operations c))))),
         (''software'', JStr ''file_builder'')]))"

definition write_file :: "filesystem \<Rightarrow> string \<Rightarrow> json option \<Rightarrow> filesystem" where
  "write_file fs filename content = AList.update filename (RegularFile content) fs"

definition write_cache :: "filesystem \<Rightarrow> cache \<Rightarrow> string \<Rightarrow> unit outcome \<times> filesystem" where
  "write_cache fs c filename =
     (case cache_json c of
        Raises e \<Rightarrow> (Raises e, fs)
      | Returns j \<Rightarrow>
          if isdir fs filename then (Raises IsADirectoryError, fs)
          else if \<not> isdir fs (dirname filename) then (Raises FileNotFoundError, fs)
          else (Returns (), write_file fs filename (Some (sanitize j))))"

text \<open>
  \<^verbatim>\<open>_operation_from_json\<close> and \<^verbatim>\<open>_operations_from_json\<close>. Subscripting a dict with a
  missing key raises \<^verbatim>\<open>KeyError\<close>, subscripting a value that is not a dict raises
  \<^verbatim>\<open>TypeError\<close>. The values are read in the order in which the source evaluates the
  constructor arguments: the fields before the suboperations, the suboperations, the
  fields after them.
\<close>

definition bind_err :: "error + 'a \<Rightarrow> ('a \<Rightarrow> error + 'b) \<Rightarrow> error + 'b" where
  "bind_err x f = (case x of Inl e \<Rightarrow> Inl e | Inr a \<Rightarrow> f a)"

definition json_get :: "(string \<times> json) list \<Rightarrow> string \<Rightarrow> error + json" where
  "json_get oj key = (case map_of oj key of None \<Rightarrow> Inl KeyError | Some v \<Rightarrow> Inr v)"

definition as_str :: "json \<Rightarrow> error + string" where
  "as_str v = (case v of JStr s \<Rightarrow> Inr s | _ \<Rightarrow> Inl TypeMismatch)"

text \<open>\<^verbatim>\<open>operation_json.get(key, False)\<close> for the two flags.\<close>

definition get_flag :: "(string \<times> json) list \<Rightarrow> string \<Rightarrow> error + bool" where
  "get_flag oj key =
     (case map_of oj key of
        None \<Rightarrow> Inr False
      | Some (JBool b) \<Rightarrow> Inr b
      | Some _ \<Rightarrow> Inl TypeMismatch)"

text \<open>\<^verbatim>\<open>FileComparison[x]\<close>: a list or a dict is unhashable, any other unknown key is missing.\<close>

definition file_comparison_item :: "json \<Rightarrow> error + file_comparison" where
  "file_comparison_item v =
     (case v of
        JStr s \<Rightarrow> (case file_comparison_lookup s of None \<Rightarrow> Inl KeyError | Some fc \<Rightarrow> Inr fc)
      | JList xs \<Rightarrow> Inl TypeError
      | JDict kvs \<Rightarrow> Inl TypeError
      | _ \<Rightarrow> Inl KeyError)"

definition build_file_head ::
  "(string \<times> json) list \<Rightarrow> error + (string \<times> file_comparison \<times> string \<times> json \<times> json \<times> json)" where
  "build_file_head oj =
     bind_err (bind_err (json_get oj ''filename'') as_str) (\<lambda>filename.
     bind_err (bind_err (json_get oj ''fileComparison'') file_comparison_item) (\<lambda>fc.
     bind_err (bind_err (json_get oj ''funcName'') as_str) (\<lambda>fname.
     bind_err (json_get oj ''args'') (\<lambda>a.
     bind_err (json_get oj ''kwargs'') (\<lambda>kw.
     bind_err (json_get oj ''suboperations'') (\<lambda>subs.
     Inr (filename, fc, fname, a, kw, subs)))))))"

definition build_file_tail ::
  "(string \<times> json) list \<Rightarrow> error + (json \<times> json \<times> bool \<times> bool)" where
  "build_file_tail oj =
     bind_err (json_get oj ''returnValue'') (\<lambda>rv.
     bind_err (json_get oj ''fileComparisonResult'') (\<lambda>fcr.
     bind_err (get_flag oj ''raised'') (\<lambda>r.
     bind_err (get_flag oj ''setupFailed'') (\<lambda>sf.
     Inr (rv, fcr, r, sf)))))"

definition subbuild_head ::
  "(string \<times> json) list \<Rightarrow> error + (string \<times> json \<times> json \<times> json)" where
  "subbuild_head oj =
     bind_err (bind_err (json_get oj ''funcName'') as_str) (\<lambda>fname.
     bind_err (json_get oj ''args'') (\<lambda>a.
     bind_err (json_get oj ''kwargs'') (\<lambda>kw.
     bind_err (json_get oj ''suboperations'') (\<lambda>subs.
     Inr (fname, a, kw, subs)))))"

definition subbuild_tail :: "(string \<times> json) list \<Rightarrow> error + (json \<times> bool \<times> bool)" where
  "subbuild_tail oj =
     bind_err (json_get oj ''returnValue'') (\<lambda>rv.
     bind_err (get_flag oj ''raised'') (\<lambda>r.
     bind_err (get_flag oj ''setupFailed'') (\<lambda>sf.
     Inr (rv, r, sf))))"

text \<open>The last branch of \<^verbatim>\<open>_operation_from_json\<close>: any other \<^verbatim>\<open>type\<close>.\<close>

definition simple_operation_from_json :: "json \<Rightarrow> (string \<times> json) list \<Rightarrow> error + operation" where
  "simple_operation_from_json type_name oj =
     bind_err (json_get oj ''args'') (\<lambda>a.
     bind_err (json_get oj ''returnValue'') (\<lambda>rv.
     bind_err (case map_of oj ''exceptionType'' of
                 None \<Rightarrow> Inr None
               | Some JNone \<Rightarrow> Inr None
               | Some (JStr s) \<Rightarrow> Inr (Some s)
               | Some _ \<Rightarrow> Inl TypeMismatch) (\<lambda>ex.
     bind_err (as_str type_name) (\<lambda>name.
     Inr (SimpleOperation name a rv ex True)))))"

type_synonym files_dict = "(string \<times> operation option) list"
type_synonym subbuilds_dict = "(json \<times> operation option) list"

function operation_from_json ::
    "json \<Rightarrow> files_dict \<Rightarrow> subbuilds_dict \<Rightarrow> error + (operation \<times> files_dict \<times> subbuilds_dict)"
  and operations_from_json ::
    "json \<Rightarrow> files_dict \<Rightarrow> subbuilds_dict \<Rightarrow> error + (operation list \<times> files_dict \<times> subbuilds_dict)"
  and operations_from_json_loop ::
    "json list \<Rightarrow> files_dict \<Rightarrow> subbuilds_dict
       \<Rightarrow> error + (operation list \<times> files_dict \<times> subbuilds_dict)"
  where
  "operation_from_json (JDict oj) fd sd =
     (case json_get oj ''type'' of
        Inl e \<Rightarrow> Inl e
      | Inr type_name \<Rightarrow>
          if type_name = JStr ''build_file'' then
            (case build_file_head oj of
               Inl e \<Rightarrow> Inl e
             | Inr (filename, fc, fname, a, kw, subs_json) \<Rightarrow>
                 (case operations_from_json subs_json fd sd of
                    Inl e \<Rightarrow> Inl e
                  | Inr (subs, fd1, sd1) \<Rightarrow>
                      (case build_file_tail oj of
                         Inl e \<Rightarrow> Inl e
                       | Inr (rv, fcr, r, sf) \<Rightarrow>
                           (let operation =
                                  BuildFileOperation filename fc fname a kw subs rv fcr r sf True
                            in Inr (operation,
                                    if \<not> sf then AList.update filename (Some operation) fd1
                                    else fd1,
                                    sd1)))))
          else if type_name = JStr ''subbuild'' then
            (case subbuild_head oj of
               Inl e \<Rightarrow> Inl e
             | Inr (fname, a, kw, subs_json) \<Rightarrow>
                 (case operations_from_json subs_json fd sd of
                    Inl e \<Rightarrow> Inl e
                  | Inr (subs, fd1, sd1) \<Rightarrow>
                      (case subbuild_tail oj of
                         Inl e \<Rightarrow> Inl e
                       | Inr (rv, r, sf) \<Rightarrow>
                           (let operation = SubbuildOperation fname a kw subs rv r sf True
                            in Inr (operation, fd1,
                                    if \<not> sf then
                                      py_dict_set (subbuild_key operation) (Some operation)
                                        sd1
                                    else sd1)))))
          else
            (case simple_operation_from_json type_name oj of
               Inl e \<Rightarrow> Inl e
             | Inr operation \<Rightarrow> Inr (operation, fd, sd)))"
| "operation_from_json JNone fd sd = Inl TypeError"
| "operation_from_json (JBool b) fd sd = Inl TypeError"
| "operation_from_json (JInt n) fd sd = Inl TypeError"
| "operation_from_json (JFloat f) fd sd = Inl TypeError"
| "operation_from_json (JStr s) fd sd = Inl TypeError"
| "operation_from_json (JList xs) fd sd = Inl TypeError"
| "operation_from_json (JTuple xs) fd sd = Inl TypeError"
| "operations_from_json (JList xs) fd sd = operations_from_json_loop xs fd sd"
| "operations_from_json (JTuple xs) fd sd = operations_from_json_loop xs fd sd"
| "operations_from_json (JDict kvs) fd sd =
     (if kvs = [] then Inr ([], fd, sd) else Inl TypeError)"
| "operations_from_json (JStr s) fd sd =
     (if s = [] then Inr ([], fd, sd) else Inl TypeError)"
| "operations_from_json JNone fd sd = Inl TypeError"
| "operations_from_json (JBool b) fd sd = Inl TypeError"
| "operations_from_json (JInt n) fd sd = Inl TypeError"
| "operations_from_json (JFloat f) fd sd = Inl TypeError"
| "operations_from_json_loop [] fd sd = Inr ([], fd, sd)"
| "operations_from_json_loop (operation_json # rest) fd sd =
     (case operation_from_json operation_json fd sd of
        Inl e \<Rightarrow> Inl e
      | Inr (operation, fd1, sd1) \<Rightarrow>
          (case operations_from_json_loop rest fd1 sd1 of
             Inl e \<Rightarrow> Inl e
           | Inr (operations, fd2, sd2) \<Rightarrow>
               Inr (operation # operations, fd2, sd2)))"
  by pat_completeness auto
termination
proof (relation "measure (\<lambda>x. case x of
    Inl (j, fs, sb) \<Rightarrow> 2 * size j
  | Inr (Inl (j, fs, sb)) \<Rightarrow> 2 * size j + 1
  | Inr (Inr (js, fs, sb)) \<Rightarrow> 2 * size_list size js + 1)", goal_cases)
  case 1
  show ?case by simp
next
  case (2 oj fd sd type_name x filename y fc z fname u a v kw subs_json)
  from 2 have "map_of oj ''suboperations'' = Some subs_json"
    by (auto simp: build_file_head_def bind_err_def json_get_def
          split: sum.splits option.splits)
  then have "(''suboperations'', subs_json) \<in> set oj" by (rule map_of_SomeD)
  then have "size subs_json < size_list (size_prod (\<lambda>_. 0) size) oj"
    by (induction oj) auto
  then show ?case by simp
next
  case (3 oj fd sd type_name x fname y a z kw subs_json)
  from 3 have "map_of oj ''suboperations'' = Some subs_json"
    by (auto simp: subbuild_head_def bind_err_def json_get_def
          split: sum.splits option.splits)
  then have "(''suboperations'', subs_json) \<in> set oj" by (rule map_of_SomeD)
  then have "size subs_json < size_list (size_prod (\<lambda>_. 0) size) oj"
    by (induction oj) auto
  then show ?case by simp
qed simp_all

text \<open>
  \<^verbatim>\<open>Cache.read_immutable\<close>, first on the parsed JSON value, then on a file.
  \<^verbatim>\<open>_CACHE_FILE_VERSION\<close> is \<^verbatim>\<open>None\<close> and \<^verbatim>\<open>_SOFTWARE\<close> is
  \<^verbatim>\<open>'file_builder'\<close>.
\<close>

fun as_str_list :: "json list \<Rightarrow> error + string list" where
  "as_str_list [] = Inr []"
| "as_str_list (x # xs) =
     bind_err (as_str x) (\<lambda>s. bind_err (as_str_list xs) (\<lambda>ss. Inr (s # ss)))"

definition as_str_set :: "json \<Rightarrow> error + string set" where
  "as_str_set v =
     (case v of
        JList xs \<Rightarrow> bind_err (as_str_list xs) (\<lambda>ss. Inr (set ss))
      | _ \<Rightarrow> Inl TypeMismatch)"

definition read_immutable_json :: "(string \<Rightarrow> string) \<Rightarrow> json \<Rightarrow> error + cache" where
  "read_immutable_json nc cj =
     (case cj of
        JDict items \<Rightarrow>
          if map_of items ''software'' \<noteq> Some (JStr ''file_builder'') then Inl CacheFormat
          else
            bind_err (json_get items ''cacheFileVersion'') (\<lambda>version.
            if \<not> is_equal version JNone then Inl CacheFormat
            else
              bind_err (json_get items ''rootOperations'') (\<lambda>root_json.
              bind_err (operations_from_json root_json [] []) (\<lambda>(operations, fd, sd).
              bind_err (bind_err (json_get items ''buildName'') as_str) (\<lambda>bn.
              bind_err (bind_err (json_get items ''createdDirs'') as_str_set) (\<lambda>dirs.
              bind_err (json_get items ''funcVersions'') (\<lambda>fv.
              bind_err (json_get items ''operationVersions'') (\<lambda>ov.
              Inr (Cache nc bn fd sd dirs fv ov False))))))))
      | _ \<Rightarrow> Inl CacheFormat)"

definition read_immutable :: "(string \<Rightarrow> string) \<Rightarrow> filesystem \<Rightarrow> string \<Rightarrow> error + cache" where
  "read_immutable nc fs filename =
     (case map_of fs filename of
        None \<Rightarrow> Inl FileNotFoundError
      | Some Directory \<Rightarrow> Inl IsADirectoryError
      | Some (RegularFile None) \<Rightarrow> Inl CacheFormat
      | Some (RegularFile (Some cj)) \<Rightarrow> read_immutable_json nc cj)"

text \<open>
  Vocabulary for the round trip through the cache file. \<open>op_wf\<close>: a record as the
  builder leaves it in a cache: finished, with sanitized values, all the way down; the
  name of a simple operation is not one of the two type names of complex operations.
  \<open>index_op\<close>: the entries that \<^verbatim>\<open>_operation_from_json\<close> adds to the two dicts for a
  record: those of its suboperations, then its own. \<open>stored\<close>: the record is an entry
  of the cache under its own key. \<open>cache_wf\<close>: every entry is a well-formed record
  with \<^verbatim>\<open>setup_failed\<close> false under its own key, no two entries have equal keys, every
  record of \<open>tree_records\<close> of an entry is stored as well, and the versions are
  sanitized.
\<close>

fun op_wf :: "operation \<Rightarrow> bool"
  and ops_wf :: "operation list \<Rightarrow> bool" where
  "op_wf (SimpleOperation name a rv ex fin) =
     (fin \<and> name \<noteq> ''build_file'' \<and> name \<noteq> ''subbuild'' \<and> sanitized a \<and> sanitized rv)"
| "op_wf (BuildFileOperation filename fc fname a kw subs rv fcr r sf fin) =
     (fin \<and> sanitized a \<and> sanitized kw \<and> sanitized rv \<and> sanitized fcr \<and> ops_wf subs)"
| "op_wf (SubbuildOperation fname a kw subs rv r sf fin) =
     (fin \<and> sanitized a \<and> sanitized kw \<and> sanitized rv \<and> ops_wf subs)"
| "ops_wf [] = True"
| "ops_wf (suboperation # rest) = (op_wf suboperation \<and> ops_wf rest)"

fun index_op :: "operation \<Rightarrow> files_dict \<Rightarrow> subbuilds_dict \<Rightarrow> files_dict \<times> subbuilds_dict"
  and index_ops :: "operation list \<Rightarrow> files_dict \<Rightarrow> subbuilds_dict \<Rightarrow> files_dict \<times> subbuilds_dict"
  where
  "index_op (BuildFileOperation filename fc fname a kw subs rv fcr r sf fin) fd sd =
     (case index_ops subs fd sd of
        (fd1, sd1) \<Rightarrow>
          (if \<not> sf then
             AList.update filename
               (Some (BuildFileOperation filename fc fname a kw subs rv fcr r sf fin)) fd1
           else fd1,
           sd1))"
| "index_op (SubbuildOperation fname a kw subs rv r sf fin) fd sd =
     (case index_ops subs fd sd of
        (fd1, sd1) \<Rightarrow>
          (fd1,
           if \<not> sf then
             py_dict_set (subbuild_key (SubbuildOperation fname a kw subs rv r sf fin))
               (Some (SubbuildOperation fname a kw subs rv r sf fin)) sd1
           else sd1))"
| "index_op (SimpleOperation name a rv ex fin) fd sd = (fd, sd)"
| "index_ops [] fd sd = (fd, sd)"
| "index_ops (suboperation # rest) fd sd =
     (case index_op suboperation fd sd of (fd1, sd1) \<Rightarrow> index_ops rest fd1 sd1)"

definition stored :: "cache \<Rightarrow> operation \<Rightarrow> bool" where
  "stored c r =
     (case file_key r of
        Some filename \<Rightarrow> (filename, Some r) \<in> set (files c)
      | None \<Rightarrow> is_subbuild r \<and> (subbuild_key r, Some r) \<in> set (subbuilds c))"

definition cache_wf :: "cache \<Rightarrow> bool" where
  "cache_wf c \<longleftrightarrow>
     (\<forall>(k, e) \<in> set (files c). \<forall>op. e = Some op
         \<longrightarrow> file_key op = Some k \<and> \<not> setup_failed op \<and> op_wf op)
     \<and> distinct (map fst (files c))
     \<and> (\<forall>(k, e) \<in> set (subbuilds c). \<forall>op. e = Some op
         \<longrightarrow> is_subbuild op \<and> k = subbuild_key op \<and> \<not> setup_failed op \<and> op_wf op)
     \<and> (\<forall>p \<in> set (subbuilds c). \<forall>q \<in> set (subbuilds c). py_eq (fst p) (fst q) \<longrightarrow> p = q)
     \<and> (\<forall>e \<in> set (cache_operations c). \<forall>op. e = Some op
         \<longrightarrow> (\<forall>r \<in> set (tree_records op). stored c r))
     \<and> finite (cache_created_dirs c)
     \<and> sanitized (func_versions c) \<and> sanitized (operation_versions c)"

text \<open>The entries of the two dicts that belong to a list of records.\<close>

definition file_pairs :: "operation list \<Rightarrow> (string \<times> operation option) set" where
  "file_pairs rs = {(k, Some r) | k r. r \<in> set rs \<and> file_key r = Some k}"

definition sub_pairs :: "operation list \<Rightarrow> (json \<times> operation option) set" where
  "sub_pairs rs = {(subbuild_key r, Some r) | r. r \<in> set rs \<and> is_subbuild r}"

subsection \<open>The directory registry (\<^verbatim>\<open>build_dirs.py\<close>)\<close>

text \<open>
  The attributes of \<^verbatim>\<open>BuildDirs\<close>; the lock has no counterpart. The two dicts are
  only looked up and updated by key, so they are maps.
\<close>

record build_dirs =
  build_dir_counts :: "string \<Rightarrow> int option"
  created_dirs_map :: "string \<Rightarrow> string option"
  error_created_dirs :: "string set"
  removed_dirs :: "string set"
  exists_dirs :: "string set"
  maybe_removed_dirs :: "string set"
  removed_files :: "string set"

definition BuildDirs :: "(string \<Rightarrow> string) \<Rightarrow> string list \<Rightarrow> string list \<Rightarrow> build_dirs" where
  "BuildDirs nc old_cache_dirs old_cache_files =
     \<lparr> build_dir_counts = Map.empty, created_dirs_map = Map.empty,
       error_created_dirs = {}, removed_dirs = {}, exists_dirs = {},
       maybe_removed_dirs = set (map nc old_cache_dirs),
       removed_files = set (map nc old_cache_files) \<rparr>"

text \<open>
  \<^verbatim>\<open>_handle_dir_exists\<close>: its two \<^verbatim>\<open>while\<close> loops, each returning the registry and
  the value of \<^verbatim>\<open>parent\<close> at its end.
\<close>

function handle_dir_exists_loop1 :: "build_dirs \<Rightarrow> string \<Rightarrow> build_dirs \<times> string" where
  "handle_dir_exists_loop1 b parent =
     (if parent \<notin> exists_dirs b \<and> build_dir_counts b parent = None then
        handle_dir_exists_loop1
          (b\<lparr> removed_dirs := removed_dirs b - {parent},
              maybe_removed_dirs := maybe_removed_dirs b - {parent},
              removed_files := removed_files b - {parent},
              exists_dirs := insert parent (exists_dirs b) \<rparr>)
          (dirname parent)
      else (b, parent))"
  by pat_completeness auto
termination
proof (relation "measure (\<lambda>(b, parent).
    2 * length parent + (if parent \<in> exists_dirs b then 0 else 1))", goal_cases)
  case 1
  show ?case by simp
next
  case (2 b parent)
  show ?case
  proof (cases "dirname parent = parent")
    case True
    with 2 show ?thesis by simp
  next
    case False
    then have "length (dirname parent) < length parent" by (rule dirname_shorter)
    with 2 show ?thesis by simp
  qed
qed

function handle_dir_exists_loop2 :: "build_dirs \<Rightarrow> string \<Rightarrow> build_dirs \<times> string" where
  "handle_dir_exists_loop2 b parent =
     (if parent \<notin> exists_dirs b then
        handle_dir_exists_loop2 (b\<lparr> exists_dirs := insert parent (exists_dirs b) \<rparr>)
          (dirname parent)
      else (b, parent))"
  by pat_completeness auto
termination
proof (relation "measure (\<lambda>(b, parent).
    2 * length parent + (if parent \<in> exists_dirs b then 0 else 1))", goal_cases)
  case 1
  show ?case by simp
next
  case (2 b parent)
  show ?case
  proof (cases "dirname parent = parent")
    case True
    with 2 show ?thesis by simp
  next
    case False
    then have "length (dirname parent) < length parent" by (rule dirname_shorter)
    with 2 show ?thesis by simp
  qed
qed

declare handle_dir_exists_loop1.simps [simp del]
declare handle_dir_exists_loop2.simps [simp del]

definition handle_dir_exists :: "build_dirs \<Rightarrow> string \<Rightarrow> build_dirs" where
  "handle_dir_exists b norm_cased_dir =
     (let (b1, parent) = handle_dir_exists_loop1 b norm_cased_dir
      in fst (handle_dir_exists_loop2 b1 parent))"

definition handle_norm_cased_dir_exists :: "build_dirs \<Rightarrow> string \<Rightarrow> build_dirs" where
  "handle_norm_cased_dir_exists b norm_cased_dir = handle_dir_exists b norm_cased_dir"

text \<open>
  \<^verbatim>\<open>started_building_file\<close>. In its loop \<^verbatim>\<open>parent\<close> is always
  \<^verbatim>\<open>os.path.dirname(prev_parent)\<close>, so the loop function takes \<^verbatim>\<open>prev_parent\<close> only.
  It returns \<^verbatim>\<open>locked_created_dirs\<close> and the registry.
\<close>

function started_building_file_loop ::
  "(string \<Rightarrow> string) \<Rightarrow> string set \<Rightarrow> build_dirs \<Rightarrow> string \<Rightarrow> string list
     \<Rightarrow> string list \<times> build_dirs" where
  "started_building_file_loop nc created_dirs_set b prev_parent locked_created_dirs =
     (let parent = dirname prev_parent in
      if parent \<noteq> prev_parent then
        (let norm_cased_parent = nc parent;
             count = (case build_dir_counts b norm_cased_parent of None \<Rightarrow> 0 | Some n \<Rightarrow> n);
             b1 = b\<lparr> build_dir_counts := (build_dir_counts b)(norm_cased_parent \<mapsto> count + 1) \<rparr>
         in if count > 0 then (locked_created_dirs, b1)
            else if parent \<in> created_dirs_set then
              started_building_file_loop nc created_dirs_set
                (b1\<lparr> created_dirs_map := (created_dirs_map b1)(norm_cased_parent \<mapsto> parent),
                     error_created_dirs := error_created_dirs b1 - {norm_cased_parent},
                     removed_files := removed_files b1 - {norm_cased_parent} \<rparr>)
                parent (locked_created_dirs @ [parent])
            else started_building_file_loop nc created_dirs_set b1 parent locked_created_dirs)
      else (locked_created_dirs, b))"
  by pat_completeness auto
termination
  by (relation "measure (\<lambda>(nc, cds, b, prev_parent, locked). length prev_parent)")
     (auto simp: dirname_shorter)

declare started_building_file_loop.simps [simp del]

definition started_building_file ::
  "(string \<Rightarrow> string) \<Rightarrow> build_dirs \<Rightarrow> string \<Rightarrow> string list \<Rightarrow> string list \<times> build_dirs" where
  "started_building_file nc b filename created_dirs =
     started_building_file_loop nc (set created_dirs)
       (b\<lparr> removed_files := removed_files b - {nc filename} \<rparr>) filename []"

text \<open>
  \<^verbatim>\<open>error_building_file\<close>. \<^verbatim>\<open>self._build_dir_counts[parent]\<close> raises
  \<^verbatim>\<open>KeyError\<close> for a directory that has no reservation.
\<close>

function error_building_file_loop :: "build_dirs \<Rightarrow> string \<Rightarrow> unit outcome \<times> build_dirs" where
  "error_building_file_loop b prev_parent =
     (let parent = dirname prev_parent in
      if parent \<noteq> prev_parent then
        (case build_dir_counts b parent of
           None \<Rightarrow> (Raises KeyError, b)
         | Some n \<Rightarrow>
             (let count = n - 1 in
              if count > 0 then
                (Returns (), b\<lparr> build_dir_counts := (build_dir_counts b)(parent \<mapsto> count) \<rparr>)
              else
                (let b1 = b\<lparr> build_dir_counts := (build_dir_counts b)(parent := None) \<rparr> in
                 if created_dirs_map b1 parent \<noteq> None then
                   error_building_file_loop
                     (b1\<lparr> created_dirs_map := (created_dirs_map b1)(parent := None),
                          error_created_dirs := insert parent (error_created_dirs b1),
                          maybe_removed_dirs := insert parent (maybe_removed_dirs b1),
                          exists_dirs := {} \<rparr>)
                     parent
                 else error_building_file_loop b1 parent)))
      else (Returns (), b))"
  by pat_completeness auto
termination
  by (relation "measure (\<lambda>(b, prev_parent). length prev_parent)")
     (auto simp: dirname_shorter)

declare error_building_file_loop.simps [simp del]

definition error_building_file ::
  "(string \<Rightarrow> string) \<Rightarrow> build_dirs \<Rightarrow> string \<Rightarrow> unit outcome \<times> build_dirs" where
  "error_building_file nc b filename = error_building_file_loop b (nc filename)"

text \<open>
  \<^verbatim>\<open>_check_maybe_removed_dir\<close> and its loop over \<^verbatim>\<open>subfiles\<close>. The recursion follows
  the real directory tree; its depth is bounded by the first argument, and \<open>None\<close> is
  returned when the bound is reached. \<open>listdir\<close> has no other error than the two that
  the source handles. Callers pass a directory that is in
  \<^verbatim>\<open>_maybe_removed_dirs\<close>, so that \<^verbatim>\<open>remove\<close> does not raise.
\<close>

fun check_maybe_removed_dir ::
    "nat \<Rightarrow> (string \<Rightarrow> string) \<Rightarrow> filesystem \<Rightarrow> build_dirs \<Rightarrow> string \<Rightarrow> (bool \<times> build_dirs) option"
  and check_subfiles ::
    "nat \<Rightarrow> (string \<Rightarrow> string) \<Rightarrow> filesystem \<Rightarrow> build_dirs \<Rightarrow> string \<Rightarrow> string list
       \<Rightarrow> (bool \<times> build_dirs) option"
  where
  "check_maybe_removed_dir 0 nc fs b norm_cased_dir = None"
| "check_maybe_removed_dir (Suc depth) nc fs b norm_cased_dir =
     (let b1 = b\<lparr> maybe_removed_dirs := maybe_removed_dirs b - {norm_cased_dir} \<rparr> in
      case listdir fs norm_cased_dir of
        Inr subfiles \<Rightarrow> check_subfiles depth nc fs b1 norm_cased_dir subfiles
      | Inl NotADirectoryError \<Rightarrow> Some (False, handle_dir_exists b1 (dirname norm_cased_dir))
      | Inl e \<Rightarrow> Some (True, b1\<lparr> removed_dirs := insert norm_cased_dir (removed_dirs b1) \<rparr>))"
| "check_subfiles depth nc fs b norm_cased_dir [] =
     Some (True, b\<lparr> removed_dirs := insert norm_cased_dir (removed_dirs b) \<rparr>)"
| "check_subfiles depth nc fs b norm_cased_dir (subfile # rest) =
     (let absolute_subfile = join norm_cased_dir (nc subfile) in
      if absolute_subfile \<in> removed_dirs b then
        (if isfile fs absolute_subfile then Some (False, handle_dir_exists b norm_cased_dir)
         else check_subfiles depth nc fs b norm_cased_dir rest)
      else if absolute_subfile \<in> removed_files b then
        (if isdir fs absolute_subfile then Some (False, handle_dir_exists b absolute_subfile)
         else check_subfiles depth nc fs b norm_cased_dir rest)
      else if absolute_subfile \<in> maybe_removed_dirs b then
        (case check_maybe_removed_dir depth nc fs b absolute_subfile of
           None \<Rightarrow> None
         | Some (removed, b1) \<Rightarrow>
             if \<not> removed then Some (False, b1)
             else check_subfiles depth nc fs b1 norm_cased_dir rest)
      else
        (if isdir fs absolute_subfile then Some (False, handle_dir_exists b absolute_subfile)
         else Some (False, handle_dir_exists b norm_cased_dir)))"

definition is_removed_norm_case ::
  "nat \<Rightarrow> (string \<Rightarrow> string) \<Rightarrow> filesystem \<Rightarrow> build_dirs \<Rightarrow> string \<Rightarrow> (bool \<times> build_dirs) option"
  where
  "is_removed_norm_case depth nc fs b norm_cased_dir =
     (if build_dir_counts b norm_cased_dir \<noteq> None then Some (False, b)
      else if norm_cased_dir \<in> removed_dirs b then Some (True, b)
      else if norm_cased_dir \<notin> maybe_removed_dirs b then Some (False, b)
      else check_maybe_removed_dir depth nc fs b norm_cased_dir)"

text \<open>The invariant that the comments of \<^verbatim>\<open>BuildDirs\<close> state for \<^verbatim>\<open>_exists_dirs\<close>.\<close>

definition exists_dirs_closed :: "build_dirs \<Rightarrow> bool" where
  "exists_dirs_closed b \<longleftrightarrow> (\<forall>d \<in> exists_dirs b. dirname d \<in> exists_dirs b)"

text \<open>Inside \<^verbatim>\<open>_handle_dir_exists\<close> the set is closed except for the pending \<^verbatim>\<open>parent\<close>.\<close>

definition closed_upto :: "build_dirs \<Rightarrow> string \<Rightarrow> bool" where
  "closed_upto b p \<longleftrightarrow> (\<forall>d \<in> exists_dirs b. dirname d \<in> exists_dirs b \<or> dirname d = p)"

subsection \<open>\<^verbatim>\<open>is_file\<close> of \<^verbatim>\<open>SimpleOperationExecutor\<close>\<close>

text \<open>
  \<^verbatim>\<open>CreatedFiles\<close>, reduced to the two sets that \<^verbatim>\<open>has_norm_cased_file\<close> and
  \<^verbatim>\<open>has_norm_cased_dir\<close> read (\<open>overlay_has_norm_cased_file\<close> and
  \<open>overlay_has_norm_cased_dir\<close> here, the first name being taken by the cache).
\<close>

record created_files_overlay =
  overlay_norm_cased_files :: "string set"
  overlay_norm_cased_dirs :: "string set"

definition overlay_has_norm_cased_file :: "created_files_overlay \<Rightarrow> string \<Rightarrow> bool" where
  "overlay_has_norm_cased_file cf norm_cased_filename
     \<longleftrightarrow> norm_cased_filename \<in> overlay_norm_cased_files cf"

definition overlay_has_norm_cased_dir :: "created_files_overlay \<Rightarrow> string \<Rightarrow> bool" where
  "overlay_has_norm_cased_dir cf norm_cased_dir \<longleftrightarrow> norm_cased_dir \<in> overlay_norm_cased_dirs cf"

text \<open>The attributes of \<^verbatim>\<open>SimpleOperationExecutor\<close> that \<^verbatim>\<open>is_file\<close> uses.\<close>

record executor =
  norm_cased_cache_filename :: string
  old_cache :: cache
  new_cache :: cache
  executor_build_dirs :: build_dirs

text \<open>\<^verbatim>\<open>_is_file_no_read\<close>: \<open>Some True\<close>, \<open>Some False\<close>, or \<open>None\<close> for Python's \<^verbatim>\<open>None\<close>.\<close>

definition is_file_no_read ::
  "executor \<Rightarrow> string \<Rightarrow> created_files_overlay option \<Rightarrow> bool option" where
  "is_file_no_read ex norm_cased_filename created =
     (case (case created of
              None \<Rightarrow> None
            | Some cf \<Rightarrow>
                if overlay_has_norm_cased_file cf norm_cased_filename then Some True
                else if overlay_has_norm_cased_dir cf norm_cased_filename then Some False
                else None) of
        Some answer \<Rightarrow> Some answer
      | None \<Rightarrow>
          if norm_cased_filename = norm_cased_cache_filename ex then Some False
          else if has_norm_cased_file (new_cache ex) norm_cased_filename then
            (if get_norm_cased_file (new_cache ex) norm_cased_filename = None then Some False
             else None)
          else if created_norm_cased_file (old_cache ex) norm_cased_filename then Some False
          else None)"

definition is_file ::
  "(string \<Rightarrow> string) \<Rightarrow> filesystem \<Rightarrow> executor \<Rightarrow> string \<Rightarrow> created_files_overlay option
     \<Rightarrow> bool \<times> executor" where
  "is_file nc fs ex filename created =
     (let norm_cased_filename = nc filename in
      case is_file_no_read ex norm_cased_filename created of
        Some answer \<Rightarrow> (answer, ex)
      | None \<Rightarrow>
          if isfile fs norm_cased_filename then
            (True,
             ex\<lparr> executor_build_dirs :=
                   handle_norm_cased_dir_exists (executor_build_dirs ex)
                     (dirname norm_cased_filename) \<rparr>)
          else (False, ex))"

text \<open>An executor whose new cache holds the finished record of a build of \<^verbatim>\<open>/out\<close> that raised.\<close>

definition example_executor :: executor where
  "example_executor =
     \<lparr> norm_cased_cache_filename = ''/cache'',
       old_cache = create_empty_immutable (\<lambda>x. x) ''b'' (JDict []),
       new_cache =
         finish_building_file (\<lambda>x. x) (create_empty_mutable (\<lambda>x. x) ''b'' (JDict []))
           (BuildFileOperation ''/out'' METADATA ''g'' (JList []) (JDict []) [] JNone JNone
              True False True),
       executor_build_dirs = BuildDirs (\<lambda>x. x) [] [''/cache''] \<rparr>"


subsection \<open>File backups (\<^verbatim>\<open>file_backups.py\<close>)\<close>


definition os_mkdir :: "filesystem \<Rightarrow> string \<Rightarrow> error + filesystem" where
  "os_mkdir fs name =
     (if map_of fs name \<noteq> None then Inl OSError
      else if dirname name \<noteq> [] \<and> \<not> isdir fs (dirname name) then Inl OSError
      else Inr (AList.update name Directory fs))"

function os_makedirs :: "filesystem \<Rightarrow> string \<Rightarrow> error + filesystem" where
  "os_makedirs fs name =
     (let head = dirname name in
      case (if head \<noteq> [] \<and> head \<noteq> name \<and> map_of fs head = None then os_makedirs fs head
            else Inr fs) of
        Inl e \<Rightarrow> Inl e
      | Inr fs1 \<Rightarrow>
          (case os_mkdir fs1 name of
             Inr fs2 \<Rightarrow> Inr fs2
           | Inl e \<Rightarrow> if isdir fs1 name then Inr fs1 else Inl e))"
  by pat_completeness auto
termination
  by (relation "measure (\<lambda>(fs, name). length name)") (auto simp: dirname_shorter)

declare os_makedirs.simps [simp del]


text \<open>The attributes of \<^verbatim>\<open>FileBackups\<close>; \<^verbatim>\<open>_temp_dir\<close> is \<open>None\<close> outside the scope.\<close>

record file_backups =
  backups :: "(string \<times> string) list"
  next_backup_index :: nat
  temp_dir :: "string option"

definition FileBackups :: file_backups where
  "FileBackups = \<lparr> backups = [], next_backup_index = 0, temp_dir = None \<rparr>"










subsection \<open>\<^verbatim>\<open>FileBuilder.clean\<close>\<close>




text \<open>\<^verbatim>\<open>Cache.created_dirs\<close>: the set as a list, in ascending order here.\<close>

definition created_dirs :: "cache \<Rightarrow> string list" where
  "created_dirs c = sorted_list_of_set (cache_created_dirs c)"




section \<open>Properties\<close>

subsection \<open>JSON utilities\<close>

lemma sanitize_items_keys: "map fst (sanitize_items kvs) = map fst kvs"
  by (induction kvs) auto

lemma sanitize_list_length: "length (sanitize_list xs) = length xs"
  by (induction xs) auto

lemma sanitize_items_length: "length (sanitize_items kvs) = length kvs"
  by (induction kvs) auto

lemma sanitize_idem:
  "sanitize (sanitize v) = sanitize v"
  "sanitize_list (sanitize_list xs) = sanitize_list xs"
  "sanitize_items (sanitize_items kvs) = sanitize_items kvs"
  by (induction v and xs and kvs rule: sanitize_sanitize_list_sanitize_items.induct) auto

lemma is_equal_items_sanitize:
  "\<forall>(k, v) \<in> set suf. map_of kvs k = Some v \<and> is_equal (sanitize v) v
   \<Longrightarrow> is_equal_items (sanitize_items suf) kvs"
  by (induction suf) auto

lemma sorted_keys_distinct: "sorted_wrt (<) (map fst (kvs :: (string \<times> 'a) list)) \<Longrightarrow> distinct (map fst kvs)"
  using strict_sorted_iff by blast

lemma is_equal_sanitize:
  "wf_json v \<Longrightarrow> nan_free v \<Longrightarrow> is_equal (sanitize v) v"
  "wf_json_list xs \<Longrightarrow> nan_free_list xs \<Longrightarrow> is_equal_zip (sanitize_list xs) xs"
  "wf_json_items kvs \<Longrightarrow> nan_free_items kvs \<Longrightarrow> (\<forall>(k, v) \<in> set kvs. is_equal (sanitize v) v)"
proof (induction v and xs and kvs rule: sanitize_sanitize_list_sanitize_items.induct)
  case (8 kvs)
  then have d: "distinct (map fst kvs)" by (simp add: sorted_keys_distinct)
  have "is_equal_items (sanitize_items kvs) kvs"
  proof (rule is_equal_items_sanitize, clarify)
    fix k v assume kv: "(k, v) \<in> set kvs"
    with d have "map_of kvs k = Some v" by simp
    moreover from 8 kv have "is_equal (sanitize v) v" by auto
    ultimately show "map_of kvs k = Some v \<and> is_equal (sanitize v) v" by simp
  qed
  then show ?case by (simp add: sanitize_items_length)
qed (auto simp: is_equal_scalar_def py_eq_num_def num_eq_def sanitize_list_length)


text \<open>
  C10 (as amended). For every JSON value \<open>v\<close> built from dicts with string keys, lists,
  tuples, strs, ints, floats, bools and None, \<open>sanitize\<close> is idempotent,
  and \<open>is_equal (sanitize v) v\<close> holds when \<open>v\<close> contains no NaN.
\<close>

theorem sanitize_idempotent_and_equal:
  assumes "wf_json v"
  shows "sanitize (sanitize v) = sanitize v \<and> (nan_free v \<longrightarrow> is_equal (sanitize v) v)"
  using assms by (simp add: sanitize_idem is_equal_sanitize)

theorem sanitize_idempotent_and_equal_witness:
  "wf_json (JDict [(''a'', JTuple [JInt 1, JFloat (Finite (1/2))]),
                   (''b'', JList [JBool True, JNone, JStr ''x''])])
   \<and> sanitize (sanitize (JDict [(''a'', JTuple [JInt 1, JFloat (Finite (1/2))]),
                   (''b'', JList [JBool True, JNone, JStr ''x''])]))
       = JDict [(''a'', JList [JInt 1, JFloat (Finite (1/2))]),
                   (''b'', JList [JBool True, JNone, JStr ''x''])]
   \<and> is_equal (sanitize (JDict [(''a'', JTuple [JInt 1, JFloat (Finite (1/2))]),
                   (''b'', JList [JBool True, JNone, JStr ''x''])]))
        (JDict [(''a'', JTuple [JInt 1, JFloat (Finite (1/2))]),
                   (''b'', JList [JBool True, JNone, JStr ''x''])])"
proof -
  let ?v = "JDict [(''a'', JTuple [JInt 1, JFloat (Finite (1/2))]),
                   (''b'', JList [JBool True, JNone, JStr ''x''])]"
  have wf: "wf_json ?v" by (simp add: less_char_def)
  have nf: "nan_free ?v" by simp
  from sanitize_idempotent_and_equal [OF wf] nf wf show ?thesis by simp
qed

text \<open>
  C10 as stated fails at the float NaN: \<open>sanitize\<close> returns it unchanged, and
  \<open>is_equal\<close> ends in Python's \<^verbatim>\<open>==\<close>, under which NaN differs from itself.
\<close>

theorem sanitize_equal_counterexample:
  "\<not> is_equal (sanitize (JFloat NaN)) (JFloat NaN)"
  by (simp add: is_equal_scalar_def py_eq_num_def num_eq_def)

subsection \<open>The hashable representation\<close>

lemma to_hashable_list_map: "to_hashable_list xs = map to_hashable xs"
  by (induction xs) auto

lemma to_hashable_items_map: "to_hashable_items kvs = map (\<lambda>(k, v). (k, to_hashable v)) kvs"
  by (induction kvs) auto

lemma py_eq_seq_all2: "py_eq_seq xs ys \<longleftrightarrow> list_all2 py_eq xs ys"
  by (induction xs arbitrary: ys) (auto simp: list_all2_Cons1 split: list.splits)

lemma is_equal_zip_all2:
  "length xs = length ys \<and> is_equal_zip xs ys \<longleftrightarrow> list_all2 is_equal xs ys"
proof (induction xs arbitrary: ys)
  case Nil
  show ?case by (cases ys) auto
next
  case (Cons x xs)
  show ?case
  proof (cases ys)
    case Nil
    then show ?thesis by simp
  next
    case (Cons y ys')
    with Cons.IH [of ys'] show ?thesis by auto
  qed
qed

lemma is_equal_items_all:
  "is_equal_items kvs kws
     \<longleftrightarrow> (\<forall>(k, v) \<in> set kvs. \<exists>w. map_of kws k = Some w \<and> is_equal v w)"
  by (induction kvs) (auto split: option.splits if_splits)

lemma wf_json_list_all: "wf_json_list xs \<longleftrightarrow> (\<forall>x \<in> set xs. wf_json x)"
  by (induction xs) auto

lemma wf_json_items_all: "wf_json_items kvs \<longleftrightarrow> (\<forall>(k, v) \<in> set kvs. wf_json v)"
  by (induction kvs) auto

lemma no_tuples_list_all: "no_tuples_list xs \<longleftrightarrow> (\<forall>x \<in> set xs. no_tuples x)"
  by (induction xs) auto

lemma no_tuples_items_all: "no_tuples_items kvs \<longleftrightarrow> (\<forall>(k, v) \<in> set kvs. no_tuples v)"
  by (induction kvs) auto

lemma sanitized_JList: "sanitized (JList xs) \<longleftrightarrow> (\<forall>x \<in> set xs. sanitized x)"
  by (auto simp: sanitized_def wf_json_list_all no_tuples_list_all)

lemma sanitized_JDict:
  "sanitized (JDict kvs)
     \<longleftrightarrow> sorted_wrt (<) (map fst kvs) \<and> (\<forall>(k, v) \<in> set kvs. sanitized v)"
  by (auto simp: sanitized_def wf_json_items_all no_tuples_items_all)

text \<open>The tuple of a dict whose keys are in ascending order.\<close>

lemma dict_tuple_flat:
  assumes "distinct (map fst kvs)"
  shows "dict_tuple (map fst kvs) (to_hashable_items kvs)
           = concat (map (\<lambda>(k, v). [JStr k, to_hashable v]) kvs)"
proof -
  have "\<And>k v. (k, v) \<in> set kvs \<Longrightarrow> map_of (to_hashable_items kvs) k = Some (to_hashable v)"
  proof -
    fix k v assume "(k, v) \<in> set kvs"
    with assms have "map_of kvs k = Some v" by simp
    then show "map_of (to_hashable_items kvs) k = Some (to_hashable v)"
      by (simp add: to_hashable_items_map map_of_map)
  qed
  then have m: "map (\<lambda>p. case map_of (to_hashable_items kvs) (fst p) of
                 Some h \<Rightarrow> [JStr (fst p), h] | None \<Rightarrow> []) kvs
             = map (\<lambda>(k, v). [JStr k, to_hashable v]) kvs"
    by (intro map_cong refl) auto
  show ?thesis unfolding dict_tuple_def map_map comp_def m by (rule refl)
qed

lemma to_hashable_JDict_sorted:
  assumes "sorted_wrt (<) (map fst kvs)"
  shows "to_hashable (JDict kvs) = JTuple (concat (map (\<lambda>(k, v). [JStr k, to_hashable v]) kvs))"
proof -
  from assms have d: "distinct (map fst kvs)" by (rule sorted_keys_distinct)
  from assms have "sorted (map fst kvs)" using strict_sorted_iff by blast
  then have "sort (map fst kvs) = map fst kvs" by (rule sorted_sort_id)
  with d show ?thesis by (simp add: dict_tuple_flat)
qed

lemma py_eq_seq_flat:
  "py_eq_seq (concat (map (\<lambda>(k, v). [JStr k, to_hashable v]) kvs))
             (concat (map (\<lambda>(k, v). [JStr k, to_hashable v]) kws))
     \<longleftrightarrow> list_all2 (\<lambda>(k, v) (k', w). k = k' \<and> py_eq (to_hashable v) (to_hashable w)) kvs kws"
proof (induction kvs arbitrary: kws)
  case Nil
  show ?case by (cases kws) auto
next
  case (Cons p kvs)
  show ?case
  proof (cases kws)
    case Nil
    then show ?thesis by (cases p) simp
  next
    case (Cons q kws')
    with Cons.IH [of kws'] show ?thesis by (cases p; cases q) auto
  qed
qed

lemma is_equal_JDict_sorted:
  assumes "sorted_wrt (<) (map fst kvs)" and "sorted_wrt (<) (map fst kws)"
  shows "is_equal (JDict kvs) (JDict kws)
           \<longleftrightarrow> list_all2 (\<lambda>(k, v) (k', w). k = k' \<and> is_equal v w) kvs kws"
proof
  assume eq: "is_equal (JDict kvs) (JDict kws)"
  then have len: "length kvs = length kws" and items: "is_equal_items kvs kws"
    by (auto split: if_splits)
  from assms have d1: "distinct (map fst kvs)" and d2: "distinct (map fst kws)"
    by (auto intro: sorted_keys_distinct)
  from items have sub: "set (map fst kvs) \<subseteq> set (map fst kws)"
    by (force simp: is_equal_items_all dest: map_of_SomeD)
  have "card (set (map fst kvs)) = card (set (map fst kws))"
    using distinct_card [OF d1] distinct_card [OF d2] len by simp
  with sub have "set (map fst kvs) = set (map fst kws)"
    by (simp add: card_subset_eq)
  with assms have keys: "map fst kvs = map fst kws"
    by (metis strict_sorted_iff sorted_distinct_set_unique)
  show "list_all2 (\<lambda>(k, v) (k', w). k = k' \<and> is_equal v w) kvs kws"
  proof (rule list_all2_all_nthI [OF len])
    fix n assume n: "n < length kvs"
    obtain k v where kv: "kvs ! n = (k, v)" by (cases "kvs ! n")
    obtain k' w where kw: "kws ! n = (k', w)" by (cases "kws ! n")
    from keys n kv kw len have kk: "k = k'"
      by (metis fst_conv nth_map)
    from n kv have "(k, v) \<in> set kvs" by (metis nth_mem)
    with items obtain w' where w': "map_of kws k = Some w'" "is_equal v w'"
      by (auto simp: is_equal_items_all)
    from n len kw have "(k', w) \<in> set kws" by (metis nth_mem)
    with d2 kk have "map_of kws k = Some w" by simp
    with w' kk kv kw show "(case kvs ! n of (k, v) \<Rightarrow> \<lambda>(k', w). k = k' \<and> is_equal v w) (kws ! n)"
      by simp
  qed
next
  assume a: "list_all2 (\<lambda>(k, v) (k', w). k = k' \<and> is_equal v w) kvs kws"
  then have len: "length kvs = length kws" by (rule list_all2_lengthD)
  from assms have d2: "distinct (map fst kws)" by (auto intro: sorted_keys_distinct)
  have "is_equal_items kvs kws"
    unfolding is_equal_items_all
  proof (clarify)
    fix k v assume "(k, v) \<in> set kvs"
    then obtain n where n: "n < length kvs" "kvs ! n = (k, v)" by (metis in_set_conv_nth)
    obtain k' w where kw: "kws ! n = (k', w)" by (cases "kws ! n")
    from a n kw have "k = k' \<and> is_equal v w"
      by (auto dest!: list_all2_nthD [where p = n])
    moreover from n len kw have "(k', w) \<in> set kws" by (metis nth_mem)
    ultimately show "\<exists>w. map_of kws k = Some w \<and> is_equal v w"
      using d2 by auto
  qed
  with len show "is_equal (JDict kvs) (JDict kws)" by simp
qed


lemma flat_not_list:
  "\<not> py_eq_seq (concat (map (\<lambda>(k, v). [JStr k, to_hashable v]) kvs)) (JInt n # hs)"
  by (cases kvs) (auto simp: py_eq_num_def)

lemma list_not_flat:
  "\<not> py_eq_seq (JInt n # hs) (concat (map (\<lambda>(k, v). [JStr k, to_hashable v]) kvs))"
  by (cases kvs) (auto simp: py_eq_num_def)

lemma to_hashable_eq_iff_is_equal:
  "sanitized v1 \<Longrightarrow> sanitized v2
     \<Longrightarrow> py_eq (to_hashable v1) (to_hashable v2) \<longleftrightarrow> is_equal v1 v2"
proof (induction v1 arbitrary: v2)
  case JNone
  then show ?case
    by (cases v2)
       (auto simp: is_equal_scalar_def to_hashable_JDict_sorted sanitized_JDict
          simp del: to_hashable.simps(2))
next
  case (JBool b)
  show ?case
  proof (cases v2)
    case (JDict kws)
    with JBool.prems have s2: "sorted_wrt (<) (map fst kws)" by (simp add: sanitized_JDict)
    have "\<not> py_eq (to_hashable (json.JBool b)) (to_hashable (json.JDict kws))"
      by (simp add: to_hashable_JDict_sorted [OF s2] list_not_flat
            del: to_hashable.simps(2) py_eq_seq.simps)
    then show ?thesis unfolding JDict by (simp add: is_equal_scalar_def)
  next
    case (JTuple ys)
    with JBool.prems show ?thesis by (simp add: sanitized_def)
  qed (auto simp: is_equal_scalar_def py_eq_num_def num_eq_def)
next
  case (JInt n)
  then show ?case
    by (cases v2)
       (auto simp: is_equal_scalar_def py_eq_num_def to_hashable_JDict_sorted sanitized_JDict
          simp del: to_hashable.simps(2))
next
  case (JFloat f)
  then show ?case
    by (cases v2)
       (auto simp: is_equal_scalar_def py_eq_num_def to_hashable_JDict_sorted sanitized_JDict
          simp del: to_hashable.simps(2))
next
  case (JStr s)
  then show ?case
    by (cases v2)
       (auto simp: is_equal_scalar_def to_hashable_JDict_sorted sanitized_JDict
          simp del: to_hashable.simps(2))
next
  case (JTuple xs)
  then show ?case by (simp add: sanitized_def)
next
  case (JList xs)
  show ?case
  proof (cases v2)
    case (JList ys)
    from JList.prems JList have sx: "\<forall>x \<in> set xs. sanitized x" and sy: "\<forall>y \<in> set ys. sanitized y"
      by (simp_all add: sanitized_JList)
    have "py_eq (to_hashable (json.JList xs)) (to_hashable (json.JList ys))
            \<longleftrightarrow> list_all2 (\<lambda>x y. py_eq (to_hashable x) (to_hashable y)) xs ys"
      by (simp add: to_hashable_list_map py_eq_seq_all2 py_eq_num_def num_eq_def
            list_all2_map1 list_all2_map2)
    also have "\<dots> \<longleftrightarrow> list_all2 is_equal xs ys"
      by (rule list.rel_cong [OF refl refl]) (use JList.IH sx sy in auto)
    also have "\<dots> \<longleftrightarrow> is_equal (json.JList xs) (json.JList ys)"
      using is_equal_zip_all2 [of xs ys] by auto
    finally show ?thesis unfolding JList .
  next
    case (JDict kws)
    with JList.prems show ?thesis
      by (simp add: to_hashable_JDict_sorted sanitized_JDict list_not_flat
            del: to_hashable.simps(2) py_eq_seq.simps)
  next
    case (JTuple ys)
    with JList.prems show ?thesis by (simp add: sanitized_def)
  qed (auto simp: py_eq_num_def num_eq_def)
next
  case (JDict kvs)
  from JDict.prems have s1: "sorted_wrt (<) (map fst kvs)"
    and sv: "\<forall>(k, v) \<in> set kvs. sanitized v"
    by (simp_all add: sanitized_JDict)
  show ?case
  proof (cases v2)
    case (JDict kws)
    with JDict.prems have s2: "sorted_wrt (<) (map fst kws)"
      and sw: "\<forall>(k, w) \<in> set kws. sanitized w"
      by (simp_all add: sanitized_JDict)
    have "py_eq (to_hashable (json.JDict kvs)) (to_hashable (json.JDict kws))
            \<longleftrightarrow> list_all2 (\<lambda>(k, v) (k', w). k = k' \<and> py_eq (to_hashable v) (to_hashable w))
                  kvs kws"
      by (simp add: to_hashable_JDict_sorted s1 s2 py_eq_seq_flat del: to_hashable.simps(2))
    also have "\<dots> \<longleftrightarrow> list_all2 (\<lambda>(k, v) (k', w). k = k' \<and> is_equal v w) kvs kws"
    proof (rule list.rel_cong [OF refl refl])
      fix p q assume p: "p \<in> set kvs" and q: "q \<in> set kws"
      obtain k v where kv: "p = (k, v)" by (cases p)
      obtain k' w where kw: "q = (k', w)" by (cases q)
      from p kv sv have "sanitized v" by auto
      moreover from q kw sw have "sanitized w" by auto
      moreover from p kv have "v \<in> Basic_BNFs.snds p" by simp
      ultimately have "py_eq (to_hashable v) (to_hashable w) \<longleftrightarrow> is_equal v w"
        using JDict.IH [OF p] by blast
      then show "(case p of (k, v) \<Rightarrow> \<lambda>(k', w). k = k' \<and> py_eq (to_hashable v) (to_hashable w)) q
              = (case p of (k, v) \<Rightarrow> \<lambda>(k', w). k = k' \<and> is_equal v w) q"
        by (simp add: kv kw)
    qed
    also have "\<dots> \<longleftrightarrow> is_equal (json.JDict kvs) (json.JDict kws)"
      by (rule is_equal_JDict_sorted [OF s1 s2, symmetric])
    finally show ?thesis unfolding JDict .
  next
    case (JList ys)
    with s1 show ?thesis
      by (simp add: to_hashable_JDict_sorted flat_not_list
            del: to_hashable.simps(2) py_eq_seq.simps)
  next
    case (JBool b)
    with s1 show ?thesis
      by (simp add: to_hashable_JDict_sorted flat_not_list
            del: to_hashable.simps(2) py_eq_seq.simps)
  next
    case (JTuple ys)
    with JDict.prems show ?thesis by (simp add: sanitized_def)
  qed (use s1 in \<open>auto simp: to_hashable_JDict_sorted simp del: to_hashable.simps(2)\<close>)
qed


text \<open>
  C2 (as amended). For sanitized values of which one contains no NaN, the hashable
  representations are equal under Python's \<^verbatim>\<open>==\<close> exactly when \<open>is_equal\<close> holds, as the
  docstring of \<^verbatim>\<open>to_hashable\<close> says. In particular the representation of a bool is never
  equal to that of an int or of a float, and those of an int and of the float of the
  same value are equal.
\<close>

theorem to_hashable_preserves_equality:
  assumes "sanitized v1" and "sanitized v2" and "nan_free v1 \<or> nan_free v2"
  shows "(py_eq (to_hashable v1) (to_hashable v2) \<longleftrightarrow> is_equal v1 v2)
       \<and> \<not> py_eq (to_hashable (JBool b)) (to_hashable (JInt n))
       \<and> \<not> py_eq (to_hashable (JBool b)) (to_hashable (JFloat f))
       \<and> \<not> is_equal (JBool b) (JInt n) \<and> \<not> is_equal (JBool b) (JFloat f)
       \<and> py_eq (to_hashable (JInt n)) (to_hashable (JFloat (Finite (of_int n))))
       \<and> is_equal (JInt n) (JFloat (Finite (of_int n)))"
  using to_hashable_eq_iff_is_equal [OF assms(1,2)]
  by (simp add: is_equal_scalar_def py_eq_num_def num_eq_def)

theorem to_hashable_preserves_equality_witness:
  "sanitized (JDict [(''bar'', JInt 7), (''foo'', JList [JStr ''e'', JBool True])])
   \<and> sanitized (JDict [(''bar'', JFloat (Finite 7)), (''foo'', JList [JStr ''e'', JBool True])])
   \<and> nan_free (JDict [(''bar'', JInt 7), (''foo'', JList [JStr ''e'', JBool True])])
   \<and> is_equal (JDict [(''bar'', JInt 7), (''foo'', JList [JStr ''e'', JBool True])])
        (JDict [(''bar'', JFloat (Finite 7)), (''foo'', JList [JStr ''e'', JBool True])])
   \<and> py_eq (to_hashable (JDict [(''bar'', JInt 7), (''foo'', JList [JStr ''e'', JBool True])]))
        (to_hashable
           (JDict [(''bar'', JFloat (Finite 7)), (''foo'', JList [JStr ''e'', JBool True])]))
   \<and> to_hashable (JDict [(''bar'', JInt 7), (''foo'', JList [JStr ''e'', JBool True])])
       = JTuple [JStr ''bar'', JInt 7, JStr ''foo'', JTuple [JInt 0, JStr ''e'', JTuple [JInt 1]]]"
proof -
  define v1 where "v1 = JDict [(''bar'', JInt 7), (''foo'', JList [JStr ''e'', JBool True])]"
  define v2 where
    "v2 = JDict [(''bar'', JFloat (Finite 7)), (''foo'', JList [JStr ''e'', JBool True])]"
  have s1: "sanitized v1" by (simp add: v1_def sanitized_def less_char_def)
  have s2: "sanitized v2" by (simp add: v2_def sanitized_def less_char_def)
  have n1: "nan_free v1" by (simp add: v1_def)
  have e: "is_equal v1 v2"
    by (simp add: v1_def v2_def is_equal_scalar_def py_eq_num_def num_eq_def)
  have h: "to_hashable v1
      = JTuple [JStr ''bar'', JInt 7, JStr ''foo'', JTuple [JInt 0, JStr ''e'', JTuple [JInt 1]]]"
    by (simp add: v1_def to_hashable_JDict_sorted less_char_def del: to_hashable.simps(2))
  from to_hashable_preserves_equality [OF s1 s2 disjI1 [OF n1]] e
  have "py_eq (to_hashable v1) (to_hashable v2)" by simp
  with s1 s2 n1 e h show ?thesis unfolding v1_def v2_def by blast
qed

text \<open>
  C2 as stated, with Python's \<^verbatim>\<open>hash\<close>, fails: \<^verbatim>\<open>hash\<close> returns a machine integer (64
  bits), and no function into 64-bit words tells all integers apart, while \<open>is_equal\<close>
  does. In CPython \<^verbatim>\<open>hash(-1) == hash(-2)\<close>.
\<close>

theorem hash_equality_counterexample:
  "\<not> (\<exists>h :: json \<Rightarrow> 64 word. \<forall>v1 v2. sanitized v1 \<longrightarrow> sanitized v2 \<longrightarrow>
         (h (to_hashable v1) = h (to_hashable v2)) = is_equal v1 v2)"
proof
  assume "\<exists>h :: json \<Rightarrow> 64 word. \<forall>v1 v2. sanitized v1 \<longrightarrow> sanitized v2 \<longrightarrow>
         (h (to_hashable v1) = h (to_hashable v2)) = is_equal v1 v2"
  then obtain h :: "json \<Rightarrow> 64 word" where
    h: "\<And>v1 v2. sanitized v1 \<Longrightarrow> sanitized v2
          \<Longrightarrow> (h (to_hashable v1) = h (to_hashable v2)) = is_equal v1 v2"
    by blast
  have "inj (\<lambda>n. h (JInt n))"
  proof (rule injI)
    fix m n assume "h (JInt m) = h (JInt n)"
    with h [of "JInt m" "JInt n"] have "is_equal (JInt m) (JInt n)"
      by (simp add: sanitized_def)
    then show "m = n" by (simp add: is_equal_scalar_def py_eq_num_def num_eq_def)
  qed
  moreover have "finite (range (\<lambda>n. h (JInt n)))" by (rule finite_subset [OF subset_UNIV]) simp
  ultimately have "finite (UNIV :: int set)" by (rule finite_imageD [rotated])
  then show False by (simp add: infinite_UNIV_int)
qed


subsection \<open>The cache\<close>

lemma keys_update: "fst ` set (AList.update k v d) = insert k (fst ` set d)"
  by (simp add: dom_update)

lemma cache_inv_Cache: "cache_inv nc (Cache nc bn fs sbs dirs fv ov m)"
proof -
  have "fst ` set (foldl (\<lambda>d (filename, operation). AList.update (nc filename) operation d) d0 fs)
        = fst ` set d0 \<union> nc ` fst ` set fs" for d0
  proof (induction fs arbitrary: d0)
    case Nil
    then show ?case by simp
  next
    case (Cons p fs)
    obtain f operation where p: "p = (f, operation)" by (cases p)
    show ?case unfolding p by (simp add: Cons.IH keys_update)
  qed
  then show ?thesis by (simp add: cache_inv_def Cache_def)
qed

lemma has_key_iff: "map_of d k \<noteq> None \<longleftrightarrow> k \<in> fst ` set d"
  by (simp add: map_of_eq_None_iff)

lemma cache_inv_start_building_file:
  "cache_inv nc c \<Longrightarrow> cache_inv nc (snd (start_building_file nc c name))"
  by (simp add: cache_inv_def start_building_file_def assert_doesnt_have_norm_cased_file_def
        Let_def keys_update split: option.splits)

lemma cache_inv_finish_building_file:
  "cache_inv nc c \<Longrightarrow> cache_inv nc (finish_building_file nc c operation)"
  by (cases operation) (simp_all add: cache_inv_def Let_def keys_update)

text \<open>
  C3. In a cache whose normalised keys are those of its files,
  \<open>start_building_file\<close> raises \<open>DuplicateBuild\<close> exactly when a filename with the same
  normalised form is present (as a finished record or as a sentinel), and then leaves
  the cache as it was; otherwise it returns and stores the sentinel \<open>None\<close> under the
  filename and under its normalised form.
\<close>

theorem start_building_file_duplicate:
  assumes "cache_inv nc c"
  shows "start_building_file nc c name =
           (if \<exists>f \<in> fst ` set (files c). nc f = nc name then (Raises DuplicateBuild, c)
            else (Returns (),
                  c\<lparr> files := AList.update name None (files c),
                     norm_cased_files := AList.update (nc name) None (norm_cased_files c) \<rparr>))
         \<and> map_of (AList.update name None (files c)) name = Some None
         \<and> map_of (AList.update (nc name) None (norm_cased_files c)) (nc name) = Some None"
proof -
  have "map_of (norm_cased_files c) (nc name) \<noteq> None
          \<longleftrightarrow> (\<exists>f \<in> fst ` set (files c). nc f = nc name)"
  proof -
    have "map_of (norm_cased_files c) (nc name) \<noteq> None
            \<longleftrightarrow> nc name \<in> nc ` fst ` set (files c)"
      using assms unfolding cache_inv_def has_key_iff by simp
    also have "\<dots> \<longleftrightarrow> (\<exists>f \<in> fst ` set (files c). nc f = nc name)"
      by (metis (no_types, opaque_lifting) image_iff)
    finally show ?thesis .
  qed
  then show ?thesis
    by (simp add: start_building_file_def assert_doesnt_have_norm_cased_file_def Let_def
          update_conv' split: option.splits)
qed

theorem start_building_file_duplicate_witness:
  "cache_inv (map (\<lambda>x. if x = CHR ''A'' then CHR ''a'' else x))
     (snd (start_building_file (map (\<lambda>x. if x = CHR ''A'' then CHR ''a'' else x))
        (create_empty_mutable (map (\<lambda>x. if x = CHR ''A'' then CHR ''a'' else x)) ''b'' (JDict []))
        ''/A''))
   \<and> start_building_file (map (\<lambda>x. if x = CHR ''A'' then CHR ''a'' else x))
        (snd (start_building_file (map (\<lambda>x. if x = CHR ''A'' then CHR ''a'' else x))
          (create_empty_mutable (map (\<lambda>x. if x = CHR ''A'' then CHR ''a'' else x)) ''b'' (JDict []))
          ''/A''))
        ''/a''
     = (Raises DuplicateBuild,
        snd (start_building_file (map (\<lambda>x. if x = CHR ''A'' then CHR ''a'' else x))
          (create_empty_mutable (map (\<lambda>x. if x = CHR ''A'' then CHR ''a'' else x)) ''b'' (JDict []))
          ''/A''))
   \<and> fst (start_building_file (map (\<lambda>x. if x = CHR ''A'' then CHR ''a'' else x))
        (snd (start_building_file (map (\<lambda>x. if x = CHR ''A'' then CHR ''a'' else x))
          (create_empty_mutable (map (\<lambda>x. if x = CHR ''A'' then CHR ''a'' else x)) ''b'' (JDict []))
          ''/A''))
        ''/b'') = Returns ()"
proof -
  define nc where "nc = map (\<lambda>x. if x = CHR ''A'' then CHR ''a'' else x)"
  define c where "c = snd (start_building_file nc (create_empty_mutable nc ''b'' (JDict [])) ''/A'')"
  have inv: "cache_inv nc c"
    unfolding c_def
    by (intro cache_inv_start_building_file)
       (simp add: create_empty_mutable_def create_empty_def cache_inv_Cache)
  have files: "files c = [(''/A'', None)]"
    by (simp add: c_def start_building_file_def assert_doesnt_have_norm_cased_file_def
          create_empty_mutable_def create_empty_def Cache_def)
  have dup: "\<exists>f \<in> fst ` set (files c). nc f = nc ''/a''"
    unfolding files by (simp add: nc_def)
  have nodup: "\<not> (\<exists>f \<in> fst ` set (files c). nc f = nc ''/b'')"
    unfolding files by (simp add: nc_def)
  have a: "start_building_file nc c ''/a'' = (Raises DuplicateBuild, c)"
    using start_building_file_duplicate [OF inv, of "''/a''"] dup by simp
  have b: "fst (start_building_file nc c ''/b'') = Returns ()"
    using start_building_file_duplicate [OF inv, of "''/b''"] nodup by simp
  from inv a b show ?thesis unfolding c_def nc_def by blast
qed














subsection \<open>Reading the cache file\<close>

text \<open>
  C6 (as amended). An operation whose \<^verbatim>\<open>type\<close> is a string other than
  \<^verbatim>\<open>build_file\<close> and \<^verbatim>\<open>subbuild\<close> is read as a simple operation of that name,
  whether or not the name is one of the known simple operations: with \<^verbatim>\<open>args\<close> and
  \<^verbatim>\<open>returnValue\<close> present (and \<^verbatim>\<open>exceptionType\<close> absent, null or a string) no
  error is produced and the dicts of files and subbuilds stay as they are.
\<close>

theorem unknown_type_read_as_simple_operation:
  assumes "map_of oj ''type'' = Some (JStr t)"
    and "t \<noteq> ''build_file''" and "t \<noteq> ''subbuild''"
    and "map_of oj ''args'' = Some a" and "map_of oj ''returnValue'' = Some rv"
    and "map_of oj ''exceptionType'' = None \<and> ex = None
         \<or> map_of oj ''exceptionType'' = Some JNone \<and> ex = None
         \<or> (\<exists>s. map_of oj ''exceptionType'' = Some (JStr s) \<and> ex = Some s)"
  shows "operation_from_json (JDict oj) fd sd = Inr (SimpleOperation t a rv ex True, fd, sd)"
  using assms
  by (auto simp: json_get_def simple_operation_from_json_def bind_err_def as_str_def)

theorem unknown_type_read_as_simple_operation_witness:
  "operation_from_json
     (JDict [(''args'', JList []), (''returnValue'', JNone), (''type'', JStr ''frobnicate'')])
     [] []
   = Inr (SimpleOperation ''frobnicate'' (JList []) JNone None True, [], [])"
  by (rule unknown_type_read_as_simple_operation) simp_all

text \<open>
  C6 as stated fails: a cache file whose subbuild record contains an operation of the
  unknown type \<^verbatim>\<open>frobnicate\<close> is read without error.
\<close>

theorem unknown_type_counterexample:
  "read_immutable (\<lambda>x. x)
     [(''/cache'',
        RegularFile (Some (JDict
          [(''buildName'', JStr ''b''),
           (''cacheFileVersion'', JNone),
           (''createdDirs'', JList []),
           (''funcVersions'', JDict []),
           (''operationVersions'', JDict []),
           (''rootOperations'', JList [JDict
              [(''args'', JList []),
               (''funcName'', JStr ''f''),
               (''kwargs'', JDict []),
               (''returnValue'', JNone),
               (''suboperations'', JList [JDict
                  [(''args'', JList []), (''returnValue'', JNone),
                   (''type'', JStr ''frobnicate'')]]),
               (''type'', JStr ''subbuild'')]]),
           (''software'', JStr ''file_builder'')])))]
     ''/cache''
   = Inr (Cache (\<lambda>x. x) ''b'' []
       [(JTuple [JInt 0, JStr ''f'', JTuple [JInt 0], JTuple []],
         Some (SubbuildOperation ''f'' (JList []) (JDict [])
                 [SimpleOperation ''frobnicate'' (JList []) JNone None True]
                 JNone False False True))]
       {} (JDict []) (JDict []) False)"
  by (simp add: read_immutable_def read_immutable_json_def json_get_def bind_err_def
        is_equal_scalar_def subbuild_head_def subbuild_tail_def get_flag_def as_str_def
        simple_operation_from_json_def as_str_set_def dict_tuple_def Let_def)


subsection \<open>The round trip through the cache file\<close>

lemma sanitize_no_tuples:
  "no_tuples v \<Longrightarrow> sanitize v = v"
  "no_tuples_list xs \<Longrightarrow> sanitize_list xs = xs"
  "no_tuples_items kvs \<Longrightarrow> sanitize_items kvs = kvs"
  by (induction v and xs and kvs rule: sanitize_sanitize_list_sanitize_items.induct) auto

lemma no_tuples_items_append:
  "no_tuples_items (xs @ ys) \<longleftrightarrow> no_tuples_items xs \<and> no_tuples_items ys"
  by (induction xs) auto

lemma no_tuples_operation_to_json:
  "op_wf op \<Longrightarrow> no_tuples (operation_to_json op)"
  "ops_wf ops \<Longrightarrow> no_tuples_list (operations_to_json ops)"
  by (induction op and ops rule: operation_to_json_operations_to_json.induct)
     (auto simp: sanitized_def no_tuples_items_append split: option.splits)

lemma file_comparison_roundtrip:
  "file_comparison_item (JStr (file_comparison_name fc)) = Inr fc"
  by (cases fc) (simp_all add: file_comparison_item_def file_comparison_lookup_def)

lemma from_json_to_json:
  "op_wf op \<Longrightarrow> operation_from_json (operation_to_json op) fd sd
       = Inr (op, fst (index_op op fd sd), snd (index_op op fd sd))"
  "ops_wf ops \<Longrightarrow> operations_from_json_loop (operations_to_json ops) fd sd
       = Inr (ops, fst (index_ops ops fd sd), snd (index_ops ops fd sd))"
proof (induction op fd sd and ops fd sd rule: index_op_index_ops.induct)
  case (1 filename fc fname a kw subs rv fcr r sf fin fd sd)
  then show ?case
    by (simp add: json_get_def build_file_head_def build_file_tail_def bind_err_def as_str_def
          get_flag_def file_comparison_roundtrip split_beta Let_def)
next
  case (2 fname a kw subs rv r sf fin fd sd)
  then show ?case
    by (simp add: json_get_def subbuild_head_def subbuild_tail_def bind_err_def as_str_def
          get_flag_def split_beta Let_def)
next
  case (3 name a rv ex fin fd sd)
  then show ?case
    by (cases ex)
       (simp_all add: json_get_def simple_operation_from_json_def bind_err_def as_str_def)
next
  case (4 fd sd)
  show ?case by simp
next
  case (5 suboperation rest fd sd)
  then show ?case by (simp add: split_beta)
qed


lemma update_set:
  "\<forall>p \<in> set d. fst p = k \<longrightarrow> p = (k, v) \<Longrightarrow> set (AList.update k v d) = insert (k, v) (set d)"
  by (induction d) auto

lemma py_dict_set_set:
  "\<forall>p \<in> set d. py_eq (fst p) k \<longrightarrow> p = (k, v)
   \<Longrightarrow> set (py_dict_set k v d) = insert (k, v) (set d)"
proof (induction d)
  case Nil
  show ?case by simp
next
  case (Cons p d)
  obtain k0 v0 where p: "p = (k0, v0)" by (cases p)
  show ?case
  proof (cases "py_eq k0 k")
    case True
    with Cons.prems p have "p = (k, v)" by auto
    with True p show ?thesis by auto
  next
    case False
    with Cons p show ?thesis by auto
  qed
qed

lemma file_pairs_append: "file_pairs (xs @ ys) = file_pairs xs \<union> file_pairs ys"
  by (auto simp: file_pairs_def)

lemma sub_pairs_append: "sub_pairs (xs @ ys) = sub_pairs xs \<union> sub_pairs ys"
  by (auto simp: sub_pairs_def)

lemma file_pairs_Cons: "file_pairs (x # xs) = file_pairs [x] \<union> file_pairs xs"
  by (auto simp: file_pairs_def)

lemma sub_pairs_Cons: "sub_pairs (x # xs) = sub_pairs [x] \<union> sub_pairs xs"
  by (auto simp: sub_pairs_def)

lemma index_sets:
  fixes FU :: "(string \<times> operation option) set" and SU :: "(json \<times> operation option) set"
  assumes funF: "\<forall>p \<in> FU. \<forall>q \<in> FU. fst p = fst q \<longrightarrow> p = q"
    and funS: "\<forall>p \<in> SU. \<forall>q \<in> SU. py_eq (fst p) (fst q) \<longrightarrow> p = q"
  shows "set fd \<subseteq> FU \<Longrightarrow> set sd \<subseteq> SU
      \<Longrightarrow> file_pairs (tree_records op) \<subseteq> FU \<Longrightarrow> sub_pairs (tree_records op) \<subseteq> SU
      \<Longrightarrow> set (fst (index_op op fd sd)) = set fd \<union> file_pairs (tree_records op)
        \<and> set (snd (index_op op fd sd)) = set sd \<union> sub_pairs (tree_records op)"
    and "set fd \<subseteq> FU \<Longrightarrow> set sd \<subseteq> SU
      \<Longrightarrow> file_pairs (tree_records_list ops) \<subseteq> FU \<Longrightarrow> sub_pairs (tree_records_list ops) \<subseteq> SU
      \<Longrightarrow> set (fst (index_ops ops fd sd)) = set fd \<union> file_pairs (tree_records_list ops)
        \<and> set (snd (index_ops ops fd sd)) = set sd \<union> sub_pairs (tree_records_list ops)"
proof (induction op fd sd and ops fd sd rule: index_op_index_ops.induct)
  case (1 filename fc fname a kw subs rv fcr r sf fin fd sd)
  let ?op = "BuildFileOperation filename fc fname a kw subs rv fcr r sf fin"
  obtain fd1 sd1 where i: "index_ops subs fd sd = (fd1, sd1)" by (cases "index_ops subs fd sd")
  from "1.prems" have sF: "file_pairs (tree_records_list subs) \<subseteq> FU"
    and sS: "sub_pairs (tree_records_list subs) \<subseteq> SU"
    by (auto simp: file_pairs_append sub_pairs_append)
  from "1.IH" [OF "1.prems"(1,2) sF sS] i
  have f1: "set fd1 = set fd \<union> file_pairs (tree_records_list subs)"
    and s1: "set sd1 = set sd \<union> sub_pairs (tree_records_list subs)" by simp_all
  have own_s: "sub_pairs [?op] = {}" by (simp add: sub_pairs_def)
  show ?case
  proof (cases sf)
    case True
    with i f1 s1 show ?thesis by simp
  next
    case False
    have own: "file_pairs [?op] = {(filename, Some ?op)}" by (auto simp: file_pairs_def)
    with False "1.prems"(3) have inU: "(filename, Some ?op) \<in> FU"
      using file_pairs_Cons [of ?op "tree_records_list subs"] by simp
    from f1 "1.prems"(1) sF have "set fd1 \<subseteq> FU" by auto
    with inU funF have "\<forall>p \<in> set fd1. fst p = filename \<longrightarrow> p = (filename, Some ?op)"
      by (metis fst_conv subsetD)
    then have "set (AList.update filename (Some ?op) fd1) = insert (filename, Some ?op) (set fd1)"
      by (rule update_set)
    with False i f1 s1 own own_s show ?thesis
      using file_pairs_Cons [of ?op "tree_records_list subs"]
        sub_pairs_Cons [of ?op "tree_records_list subs"]
      by auto
  qed
next
  case (2 fname a kw subs rv r sf fin fd sd)
  let ?op = "SubbuildOperation fname a kw subs rv r sf fin"
  obtain fd1 sd1 where i: "index_ops subs fd sd = (fd1, sd1)" by (cases "index_ops subs fd sd")
  from "2.prems" have sF: "file_pairs (tree_records_list subs) \<subseteq> FU"
    and sS: "sub_pairs (tree_records_list subs) \<subseteq> SU"
    by (auto simp: file_pairs_append sub_pairs_append)
  from "2.IH" [OF "2.prems"(1,2) sF sS] i
  have f1: "set fd1 = set fd \<union> file_pairs (tree_records_list subs)"
    and s1: "set sd1 = set sd \<union> sub_pairs (tree_records_list subs)" by simp_all
  have own_f: "file_pairs [?op] = {}" by (simp add: file_pairs_def)
  show ?case
  proof (cases sf)
    case True
    with i f1 s1 show ?thesis by simp
  next
    case False
    have own: "sub_pairs [?op] = {(subbuild_key ?op, Some ?op)}" by (auto simp: sub_pairs_def)
    with False "2.prems"(4) have inU: "(subbuild_key ?op, Some ?op) \<in> SU"
      using sub_pairs_Cons [of ?op "tree_records_list subs"]
      by (simp del: subbuild_key.simps)
    from s1 "2.prems"(2) sS have "set sd1 \<subseteq> SU" by auto
    with inU funS
    have "\<forall>p \<in> set sd1. py_eq (fst p) (subbuild_key ?op) \<longrightarrow> p = (subbuild_key ?op, Some ?op)"
      by (metis fst_conv subsetD)
    then have "set (py_dict_set (subbuild_key ?op) (Some ?op) sd1)
                 = insert (subbuild_key ?op, Some ?op) (set sd1)"
      by (rule py_dict_set_set)
    with False i f1 s1 own own_f show ?thesis
      using file_pairs_Cons [of ?op "tree_records_list subs"]
        sub_pairs_Cons [of ?op "tree_records_list subs"]
      by (auto simp del: subbuild_key.simps)
  qed
next
  case (3 name a rv ex fin fd sd)
  show ?case by (simp add: file_pairs_def sub_pairs_def)
next
  case (4 fd sd)
  show ?case by (simp add: file_pairs_def sub_pairs_def)
next
  case (5 suboperation rest fd sd)
  obtain fd1 sd1 where i: "index_op suboperation fd sd = (fd1, sd1)"
    by (cases "index_op suboperation fd sd")
  from "5.prems" have hF: "file_pairs (tree_records suboperation) \<subseteq> FU"
    and hS: "sub_pairs (tree_records suboperation) \<subseteq> SU"
    and rF: "file_pairs (tree_records_list rest) \<subseteq> FU"
    and rS: "sub_pairs (tree_records_list rest) \<subseteq> SU"
    by (auto simp: file_pairs_append sub_pairs_append)
  from "5.IH"(1) [OF "5.prems"(1,2) hF hS] i
  have f1: "set fd1 = set fd \<union> file_pairs (tree_records suboperation)"
    and s1: "set sd1 = set sd \<union> sub_pairs (tree_records suboperation)" by simp_all
  from f1 s1 "5.prems"(1,2) hF hS have "set fd1 \<subseteq> FU" "set sd1 \<subseteq> SU" by auto
  from "5.IH"(2) [OF i [symmetric] this rF rS] i f1 s1 show ?case
    by (simp add: file_pairs_append sub_pairs_append Un_assoc)
qed

lemma set_tree_records_list:
  "set (tree_records_list xs) = (\<Union>x \<in> set xs. set (tree_records x))"
  by (induction xs) auto

lemma self_in_tree_records:
  "is_complex x \<Longrightarrow> \<not> setup_failed x \<Longrightarrow> x \<in> set (tree_records x)"
  by (cases x) auto

lemma tree_records_suboperations:
  "set (tree_records_list (suboperations p)) \<subseteq> set (tree_records p)"
  by (cases p) auto

lemma tree_records_trans:
  "p \<in> set (tree_records tr) \<Longrightarrow> set (tree_records p) \<subseteq> set (tree_records tr)"
  "p \<in> set (tree_records_list xs) \<Longrightarrow> set (tree_records p) \<subseteq> set (tree_records_list xs)"
proof (induction tr and xs arbitrary: p and p rule: tree_records_tree_records_list.induct)
  case (1 filename fc fname a kw subs rv fcr r sf fin)
  then show ?case by (auto split: if_splits)
next
  case (2 fname a kw subs rv r sf fin)
  then show ?case by (auto split: if_splits)
next
  case (3 name a rv ex fin)
  then show ?case by simp
next
  case 4
  then show ?case by simp
next
  case (5 suboperation rest)
  then show ?case by auto
qed

lemma size_suboperation: "x \<in> set (suboperations p) \<Longrightarrow> size x < size p"
proof (cases p)
  case (SimpleOperation name a rv ex fin)
  assume "x \<in> set (suboperations p)"
  with SimpleOperation show ?thesis by simp
next
  case (BuildFileOperation filename fc fname a kw subs rv fcr r sf fin)
  assume "x \<in> set (suboperations p)"
  with BuildFileOperation have "x \<in> set subs" by simp
  then have "size x \<le> size_list size subs" by (rule size_list_estimation') simp
  with BuildFileOperation show ?thesis by simp
next
  case (SubbuildOperation fname a kw subs rv r sf fin)
  assume "x \<in> set (suboperations p)"
  with SubbuildOperation have "x \<in> set subs" by simp
  then have "size x \<le> size_list size subs" by (rule size_list_estimation') simp
  with SubbuildOperation show ?thesis by simp
qed

text \<open>Every record of a list of stored records lies in the tree of a root.\<close>

lemma reachable_from_roots:
  assumes all: "\<forall>x \<in> set S. is_complex x \<and> \<not> setup_failed x"
    and x: "x \<in> set S"
  shows "x \<in> set (tree_records_list (root_operations S))"
proof -
  define M where "M = sum_list (map size S)"
  have bound: "y \<in> set S \<Longrightarrow> size y \<le> M" for y
    unfolding M_def by (induction S) auto
  have "\<forall>y \<in> set S. M - size y = n \<longrightarrow> y \<in> set (tree_records_list (root_operations S))" for n
  proof (induction n rule: less_induct)
    case (less n)
    show ?case
    proof (intro ballI impI)
      fix y assume y: "y \<in> set S" and n: "M - size y = n"
      from all y have cy: "is_complex y" "\<not> setup_failed y" by auto
      show "y \<in> set (tree_records_list (root_operations S))"
      proof (cases "y \<in> non_root_operations S")
        case False
        with y have "y \<in> set (root_operations S)" by (simp add: root_operations_def)
        with self_in_tree_records [OF cy] show ?thesis
          by (auto simp: set_tree_records_list)
      next
        case True
        then obtain p where p: "p \<in> set S" "y \<in> set (suboperations p)"
          by (auto simp: non_root_operations_def)
        from p(2) have "size y < size p" by (rule size_suboperation)
        with bound [OF p(1)] n have "M - size p < n" by simp
        with less.IH p(1) have pr: "p \<in> set (tree_records_list (root_operations S))" by blast
        from p(2) have "set (tree_records y) \<subseteq> set (tree_records_list (suboperations p))"
          by (auto simp: set_tree_records_list)
        with self_in_tree_records [OF cy] tree_records_suboperations [of p]
        have "y \<in> set (tree_records p)" by blast
        with tree_records_trans(2) [OF pr] show ?thesis by blast
      qed
    qed
  qed
  with x show ?thesis by blast
qed


subsection \<open>The directory registry\<close>

lemma loop1_closed_upto:
  "closed_upto b p \<Longrightarrow> closed_upto (fst (handle_dir_exists_loop1 b p)) (snd (handle_dir_exists_loop1 b p))"
proof (induction b p rule: handle_dir_exists_loop1.induct)
  case (1 b parent)
  show ?case
  proof (cases "parent \<notin> exists_dirs b \<and> build_dir_counts b parent = None")
    case True
    let ?b = "b\<lparr> removed_dirs := removed_dirs b - {parent},
              maybe_removed_dirs := maybe_removed_dirs b - {parent},
              removed_files := removed_files b - {parent},
              exists_dirs := insert parent (exists_dirs b) \<rparr>"
    from "1.prems" have "closed_upto ?b (dirname parent)"
      by (auto simp: closed_upto_def)
    with True "1.IH" show ?thesis
      by (subst (1 2) handle_dir_exists_loop1.simps) simp
  next
    case False
    with "1.prems" show ?thesis
      by (subst (1 2) handle_dir_exists_loop1.simps) auto
  qed
qed

lemma loop2_closed:
  "closed_upto b p \<Longrightarrow> exists_dirs_closed (fst (handle_dir_exists_loop2 b p))"
proof (induction b p rule: handle_dir_exists_loop2.induct)
  case (1 b parent)
  show ?case
  proof (cases "parent \<notin> exists_dirs b")
    case True
    from "1.prems" have "closed_upto (b\<lparr> exists_dirs := insert parent (exists_dirs b) \<rparr>) (dirname parent)"
      by (auto simp: closed_upto_def)
    with True "1.IH" show ?thesis
      by (subst handle_dir_exists_loop2.simps) simp
  next
    case False
    with "1.prems" show ?thesis
      by (subst handle_dir_exists_loop2.simps) (auto simp: closed_upto_def exists_dirs_closed_def)
  qed
qed

lemma handle_dir_exists_closed:
  "exists_dirs_closed b \<Longrightarrow> exists_dirs_closed (handle_dir_exists b d)"
proof -
  assume "exists_dirs_closed b"
  then have "closed_upto b d" by (auto simp: closed_upto_def exists_dirs_closed_def)
  then have "closed_upto (fst (handle_dir_exists_loop1 b d)) (snd (handle_dir_exists_loop1 b d))"
    by (rule loop1_closed_upto)
  then show ?thesis
    by (simp add: handle_dir_exists_def split_beta loop2_closed)
qed

lemma started_building_file_loop_exists:
  "exists_dirs (snd (started_building_file_loop nc cds b prev locked)) = exists_dirs b"
proof (induction nc cds b prev locked rule: started_building_file_loop.induct)
  case (1 nc cds b prev locked)
  show ?case
    using 1 by (subst started_building_file_loop.simps) (auto simp: Let_def)
qed

lemma error_building_file_loop_closed:
  "exists_dirs_closed b \<Longrightarrow> exists_dirs_closed (snd (error_building_file_loop b prev))"
proof (induction b prev rule: error_building_file_loop.induct)
  case (1 b prev)
  have e: "exists_dirs_closed (x\<lparr> exists_dirs := {} \<rparr>)" for x :: build_dirs
    by (simp add: exists_dirs_closed_def)
  have k: "exists_dirs_closed (b\<lparr> build_dir_counts := m \<rparr>)" for m
    using "1.prems" by (simp add: exists_dirs_closed_def)
  show ?case
    apply (subst error_building_file_loop.simps)
    apply (simp add: Let_def split: option.splits)
    apply (intro conjI impI allI)
    using "1.prems" k "1.IH" e
    apply (auto simp: exists_dirs_closed_def)
    done
qed

lemma check_closed:
  "exists_dirs_closed b \<Longrightarrow> check_maybe_removed_dir depth nc fs b d = Some (r, b')
     \<Longrightarrow> exists_dirs_closed b'"
  "exists_dirs_closed b \<Longrightarrow> check_subfiles depth nc fs b d subfiles = Some (r, b')
     \<Longrightarrow> exists_dirs_closed b'"
proof (induction depth nc fs b d and depth nc fs b d subfiles arbitrary: r b' and r b'
    rule: check_maybe_removed_dir_check_subfiles.induct)
  case (1 nc fs b d)
  then show ?case by simp
next
  case (2 depth nc fs b d)
  let ?b1 = "b\<lparr> maybe_removed_dirs := maybe_removed_dirs b - {d} \<rparr>"
  from "2.prems"(1) have c1: "exists_dirs_closed ?b1" by (simp add: exists_dirs_closed_def)
  show ?case
  proof (cases "listdir fs d")
    case (Inr subfiles)
    with "2.prems"(2) have "check_subfiles depth nc fs ?b1 d subfiles = Some (r, b')"
      by (simp add: Let_def)
    with "2.IH" [OF refl Inr c1] show ?thesis by simp
  next
    case (Inl e)
    with "2.prems"(2) c1 handle_dir_exists_closed [OF c1, of "dirname d"] show ?thesis
      by (cases e) (auto simp: Let_def exists_dirs_closed_def)
  qed
next
  case (3 depth nc fs b d)
  then show ?case by (auto simp: exists_dirs_closed_def)
next
  case (4 depth nc fs b d subfile rest)
  let ?a = "join d (nc subfile)"
  note hc = handle_dir_exists_closed [OF "4.prems"(1)]
  consider (rd) "?a \<in> removed_dirs b"
    | (rf) "?a \<notin> removed_dirs b" "?a \<in> removed_files b"
    | (mr) "?a \<notin> removed_dirs b" "?a \<notin> removed_files b" "?a \<in> maybe_removed_dirs b"
    | (ot) "?a \<notin> removed_dirs b" "?a \<notin> removed_files b" "?a \<notin> maybe_removed_dirs b"
    by blast
  then show ?case
  proof cases
    case rd
    with "4.prems" "4.IH"(1) [OF refl] hc show ?thesis
      by (auto simp: Let_def split: if_splits)
  next
    case rf
    with "4.prems" "4.IH"(2) [OF refl] hc show ?thesis
      by (auto simp: Let_def split: if_splits)
  next
    case mr
    with "4.prems"(2) obtain r1 b1 where
      c: "check_maybe_removed_dir depth nc fs b ?a = Some (r1, b1)"
      by (auto simp: Let_def split: option.splits)
    from "4.IH"(3) [OF refl mr "4.prems"(1) c]
    have b1: "exists_dirs_closed b1" .
    show ?thesis
    proof (cases r1)
      case True
      with mr c "4.prems"(2) have sub: "check_subfiles depth nc fs b1 d rest = Some (r, b')"
        by (simp add: Let_def)
      from "4.IH"(4) [OF refl mr c refl _ b1 sub] True show ?thesis by simp
    next
      case False
      with mr c "4.prems"(2) b1 show ?thesis by (simp add: Let_def)
    qed
  next
    case ot
    with "4.prems" hc show ?thesis
      by (auto simp: Let_def split: if_splits)
  qed
qed


lemma loop1_maybe_removed:
  "maybe_removed_dirs (fst (handle_dir_exists_loop1 b p)) \<subseteq> maybe_removed_dirs b"
proof (induction b p rule: handle_dir_exists_loop1.induct)
  case (1 b parent)
  show ?case
    using 1 by (subst handle_dir_exists_loop1.simps) auto
qed

lemma loop2_maybe_removed:
  "maybe_removed_dirs (fst (handle_dir_exists_loop2 b p)) = maybe_removed_dirs b"
proof (induction b p rule: handle_dir_exists_loop2.induct)
  case (1 b parent)
  show ?case
    using 1 by (subst handle_dir_exists_loop2.simps) auto
qed

lemma handle_dir_exists_maybe_removed:
  "maybe_removed_dirs (handle_dir_exists b d) \<subseteq> maybe_removed_dirs b"
  by (simp add: handle_dir_exists_def split_beta loop2_maybe_removed loop1_maybe_removed)

lemma check_returns:
  "finite (maybe_removed_dirs b) \<Longrightarrow> d \<in> maybe_removed_dirs b
     \<Longrightarrow> card (maybe_removed_dirs b) \<le> depth
     \<Longrightarrow> \<exists>r b'. check_maybe_removed_dir depth nc fs b d = Some (r, b')
            \<and> maybe_removed_dirs b' \<subseteq> maybe_removed_dirs b - {d}"
  "finite (maybe_removed_dirs b) \<Longrightarrow> card (maybe_removed_dirs b) \<le> depth
     \<Longrightarrow> \<exists>r b'. check_subfiles depth nc fs b d subfiles = Some (r, b')
            \<and> maybe_removed_dirs b' \<subseteq> maybe_removed_dirs b"
proof (induction depth nc fs b d and depth nc fs b d subfiles
    rule: check_maybe_removed_dir_check_subfiles.induct)
  case (1 nc fs b d)
  then have "maybe_removed_dirs b = {}" by simp
  with 1 show ?case by simp
next
  case (2 depth nc fs b d)
  let ?b1 = "b\<lparr> maybe_removed_dirs := maybe_removed_dirs b - {d} \<rparr>"
  from "2.prems" have f1: "finite (maybe_removed_dirs ?b1)"
    and c1: "card (maybe_removed_dirs ?b1) \<le> depth"
    by (auto simp: card_Diff_singleton)
  show ?case
  proof (cases "listdir fs d")
    case (Inr subfiles)
    from "2.IH" [OF refl Inr f1 c1] Inr show ?thesis by (auto simp: Let_def)
  next
    case (Inl e)
    with handle_dir_exists_maybe_removed [of ?b1 "dirname d"] show ?thesis
      by (cases e) (auto simp: Let_def)
  qed
next
  case (3 depth nc fs b d)
  show ?case by (rule exI [of _ True]) simp
next
  case (4 depth nc fs b d subfile rest)
  let ?a = "join d (nc subfile)"
  note hm = handle_dir_exists_maybe_removed [of b]
  consider (rd) "?a \<in> removed_dirs b"
    | (rf) "?a \<notin> removed_dirs b" "?a \<in> removed_files b"
    | (mr) "?a \<notin> removed_dirs b" "?a \<notin> removed_files b" "?a \<in> maybe_removed_dirs b"
    | (ot) "?a \<notin> removed_dirs b" "?a \<notin> removed_files b" "?a \<notin> maybe_removed_dirs b"
    by blast
  then show ?case
  proof cases
    case rd
    with "4.IH"(1) [OF refl _ _ "4.prems"] hm show ?thesis
      by (auto simp: Let_def)
  next
    case rf
    with "4.IH"(2) [OF refl _ _ _ "4.prems"] hm show ?thesis
      by (auto simp: Let_def)
  next
    case mr
    from "4.IH"(3) [OF refl mr "4.prems"(1) mr(3) "4.prems"(2)]
    obtain r1 b1 where c: "check_maybe_removed_dir depth nc fs b ?a = Some (r1, b1)"
      and m: "maybe_removed_dirs b1 \<subseteq> maybe_removed_dirs b - {?a}" by blast
    from m "4.prems" have f1: "finite (maybe_removed_dirs b1)"
      by (meson finite_Diff finite_subset)
    from m "4.prems" have "card (maybe_removed_dirs b1) \<le> card (maybe_removed_dirs b)"
      by (meson Diff_subset card_mono subset_trans)
    with "4.prems" have c1: "card (maybe_removed_dirs b1) \<le> depth" by simp
    show ?thesis
    proof (cases r1)
      case True
      from "4.IH"(4) [OF refl mr c refl _ f1 c1] True m mr c show ?thesis
        by (auto simp: Let_def)
    next
      case False
      with mr c m show ?thesis by (auto simp: Let_def)
    qed
  next
    case ot
    with hm show ?thesis by (auto simp: Let_def)
  qed
qed

lemma is_removed_norm_case_returns:
  assumes "finite (maybe_removed_dirs b)" and "card (maybe_removed_dirs b) \<le> depth"
  shows "is_removed_norm_case depth nc fs b d \<noteq> None"
  using check_returns(1) [OF assms(1) _ assms(2), of d nc fs]
  by (auto simp: is_removed_norm_case_def)

lemma BuildDirs_closed: "exists_dirs_closed (BuildDirs nc old_cache_dirs old_cache_files)"
  by (simp add: exists_dirs_closed_def BuildDirs_def)

text \<open>
  C8. Each operation of \<open>BuildDirs\<close> keeps \<^verbatim>\<open>_exists_dirs\<close> closed under \<open>dirname\<close>:
  \<open>handle_norm_cased_dir_exists\<close>, \<open>started_building_file\<close>, \<open>error_building_file\<close>
  (which empties the set when it evicts a created directory) and \<open>is_removed_norm_case\<close>.
  The set is empty, hence closed, in a new registry (\<open>BuildDirs_closed\<close>), and
  \<open>is_removed_norm_case\<close> returns when the bound is the number of directories that may
  be removed (\<open>is_removed_norm_case_returns\<close>).
\<close>

theorem exists_dirs_closed_preserved:
  assumes "exists_dirs_closed b"
  shows "exists_dirs_closed (handle_norm_cased_dir_exists b d)
       \<and> exists_dirs_closed (snd (started_building_file nc b filename created))
       \<and> exists_dirs_closed (snd (error_building_file nc b filename))
       \<and> (\<forall>r b'. is_removed_norm_case depth nc fs b d = Some (r, b')
              \<longrightarrow> exists_dirs_closed b')"
proof (intro conjI allI impI)
  show "exists_dirs_closed (handle_norm_cased_dir_exists b d)"
    using assms by (simp add: handle_norm_cased_dir_exists_def handle_dir_exists_closed)
  show "exists_dirs_closed (snd (started_building_file nc b filename created))"
    using assms
    by (simp add: exists_dirs_closed_def started_building_file_def
          started_building_file_loop_exists)
  show "exists_dirs_closed (snd (error_building_file nc b filename))"
    using assms by (simp add: error_building_file_def error_building_file_loop_closed)
next
  fix r b'
  assume "is_removed_norm_case depth nc fs b d = Some (r, b')"
  with assms check_closed(1) [OF assms, of depth nc fs d r b'] show "exists_dirs_closed b'"
    by (auto simp: is_removed_norm_case_def split: if_splits)
qed


theorem exists_dirs_closed_preserved_witness:
  "exists_dirs (handle_norm_cased_dir_exists (BuildDirs (\<lambda>x. x) [] []) ''/a/b'')
     = {''/a/b'', ''/a'', ''/''}
   \<and> exists_dirs_closed (handle_norm_cased_dir_exists (BuildDirs (\<lambda>x. x) [] []) ''/a/b'')
   \<and> exists_dirs_closed
        (handle_norm_cased_dir_exists
           (handle_norm_cased_dir_exists (BuildDirs (\<lambda>x. x) [] []) ''/a/b'') ''/x'')
   \<and> exists_dirs_closed
        (snd (error_building_file (\<lambda>x. x)
           (handle_norm_cased_dir_exists (BuildDirs (\<lambda>x. x) [] []) ''/a/b'') ''/a/f''))"
proof -
  define b1 where "b1 = handle_norm_cased_dir_exists (BuildDirs (\<lambda>x. x) [] []) ''/a/b''"
  have e: "exists_dirs b1 = {''/a/b'', ''/a'', ''/''}"
    unfolding b1_def
    by (simp add: handle_norm_cased_dir_exists_def handle_dir_exists_def BuildDirs_def
          handle_dir_exists_loop1.simps handle_dir_exists_loop2.simps dirname_def
          insert_commute)
  have c: "exists_dirs_closed b1"
    unfolding b1_def
    using exists_dirs_closed_preserved [OF BuildDirs_closed, of "(\<lambda>x. x)" "[]" "[]" "''/a/b''"]
    by simp
  from exists_dirs_closed_preserved [OF c, of "''/x''" "(\<lambda>x. x)" "''/a/f''"] e c
  show ?thesis unfolding b1_def by simp
qed

subsection \<open>\<^verbatim>\<open>is_file\<close>\<close>

text \<open>
  C4 (as amended). \<open>is_file\<close> answers in this order: an overlay, when supplied, makes a
  created file a file and a created directory not a file; the cache file is not a file;
  a file with a sentinel in the new cache is not a file; a file with a finished record
  in the new cache is a file exactly when the real file system has it as a regular
  file; a file that the previous build created is not a file; any other path is a file
  exactly when the real file system has it as a regular file. The registry is told of
  the parent directory when the real file system gave the answer true.
\<close>

theorem is_file_cases:
  "fst (is_file nc fs ex f created) =
     (if created \<noteq> None \<and> overlay_has_norm_cased_file (the created) (nc f) then True
      else if created \<noteq> None \<and> overlay_has_norm_cased_dir (the created) (nc f) then False
      else if nc f = norm_cased_cache_filename ex then False
      else if has_norm_cased_file (new_cache ex) (nc f) then
        get_norm_cased_file (new_cache ex) (nc f) \<noteq> None \<and> isfile fs (nc f)
      else if created_norm_cased_file (old_cache ex) (nc f) then False
      else isfile fs (nc f))
   \<and> snd (is_file nc fs ex f created) =
     (if is_file_no_read ex (nc f) created = None \<and> isfile fs (nc f) then
        ex\<lparr> executor_build_dirs :=
              handle_norm_cased_dir_exists (executor_build_dirs ex) (dirname (nc f)) \<rparr>
      else ex)"
  by (cases created) (auto simp: is_file_def is_file_no_read_def Let_def split: option.splits)

theorem is_file_cases_witness:
  "fst (is_file (\<lambda>x. x) [(''/'', Directory), (''/out'', RegularFile None)]
          example_executor ''/out'' None) = True
   \<and> fst (is_file (\<lambda>x. x) [(''/'', Directory), (''/out'', RegularFile None)]
          example_executor ''/out''
          (Some \<lparr> overlay_norm_cased_files = {}, overlay_norm_cased_dirs = {''/out''} \<rparr>))
       = False"
  using is_file_cases [of "\<lambda>x. x" "[(''/'', Directory), (''/out'', RegularFile None)]"
          example_executor "''/out''" None]
        is_file_cases [of "\<lambda>x. x" "[(''/'', Directory), (''/out'', RegularFile None)]"
          example_executor "''/out''"
          "Some \<lparr> overlay_norm_cased_files = {}, overlay_norm_cased_dirs = {''/out''} \<rparr>"]
  by (simp add: example_executor_def has_norm_cased_file_def get_norm_cased_file_def
        create_empty_mutable_def create_empty_immutable_def create_empty_def Cache_def
        isfile_def Let_def created_norm_cased_file_def
        overlay_has_norm_cased_file_def overlay_has_norm_cased_dir_def)

text \<open>
  C4 as stated fails for a file with a finished record in the new cache: here the build
  of \<^verbatim>\<open>/out\<close> has finished (it raised), the file is not on disk, and \<open>is_file\<close> is false.
\<close>

theorem is_file_finished_counterexample:
  "get_norm_cased_file (new_cache example_executor) ''/out'' \<noteq> None
   \<and> fst (is_file (\<lambda>x. x) [(''/'', Directory)] example_executor ''/out'' None) = False"
  by (simp add: example_executor_def has_norm_cased_file_def get_norm_cased_file_def
        create_empty_mutable_def create_empty_immutable_def create_empty_def Cache_def
        isfile_def is_file_def Let_def is_file_no_read_def created_norm_cased_file_def)


subsection \<open>File backups\<close>

lemma os_mkdir_keeps:
  "os_mkdir fs name = Inr fs1
   \<Longrightarrow> map_of fs1 p = map_of fs p \<or> (map_of fs p = None \<and> map_of fs1 p = Some Directory)"
  by (auto simp: os_mkdir_def update_conv' split: if_splits)

lemma os_makedirs_keeps:
  "os_makedirs fs name = Inr fs1
   \<Longrightarrow> map_of fs1 p = map_of fs p \<or> (map_of fs p = None \<and> map_of fs1 p = Some Directory)"
proof (induction fs name arbitrary: fs1 rule: os_makedirs.induct)
  case (1 fs name)
  let ?head = "dirname name"
  let ?rec = "?head \<noteq> [] \<and> ?head \<noteq> name \<and> map_of fs ?head = None"
  obtain fs0 where fs0: "(if ?rec then os_makedirs fs ?head else Inr fs) = Inr fs0"
    and rest: "(case os_mkdir fs0 name of Inr fs2 \<Rightarrow> Inr fs2
                | Inl e \<Rightarrow> if isdir fs0 name then Inr fs0 else Inl e) = Inr fs1"
    using "1.prems" by (subst (asm) os_makedirs.simps) (auto simp: Let_def split: sum.splits)
  have k0: "map_of fs0 p = map_of fs p \<or> (map_of fs p = None \<and> map_of fs0 p = Some Directory)"
  proof (cases ?rec)
    case True
    with fs0 have "os_makedirs fs ?head = Inr fs0" by simp
    from "1.IH" [OF refl _ this] True show ?thesis by simp
  next
    case False
    with fs0 show ?thesis by simp
  qed
  have k1: "map_of fs1 p = map_of fs0 p \<or> (map_of fs0 p = None \<and> map_of fs1 p = Some Directory)"
    using rest os_mkdir_keeps [of fs0 name _ p]
    by (auto split: sum.splits if_splits)
  from k0 k1 show ?case by auto
qed

lemma isfile_makedirs:
  "os_makedirs fs name = Inr fs1 \<Longrightarrow> isfile fs1 p = isfile fs p"
  using os_makedirs_keeps [of fs name fs1 p] by (auto simp: isfile_def)





subsection \<open>\<^verbatim>\<open>clean\<close>\<close>














end
